theory Spec2Isabelle
  imports Main "HOL-Library.Word"
begin

section \<open>Embedding of the code\<close>

subsection \<open>The Reddit widget (internal/widget/reddit.go)\<close>





subsection \<open>Regular expressions as Go's \<open>regexp\<close> package matches them\<close>

text \<open>
  The two patterns of internal/widget/fields.go that the claims are about use literals,
  the class \<^verbatim>\<open>\d\<close> (ASCII digits only in Go), the anchors \<^verbatim>\<open>^\<close> and \<^verbatim>\<open>$\<close>
  (without the multi-line flag: beginning and end of the text), concatenation,
  alternation, \<^verbatim>\<open>?\<close>, \<^verbatim>\<open>+\<close>, bounded repetition and capturing groups. The datatype
  \<open>re\<close> has one constructor for each; a non-capturing group is just the nesting of the
  syntax tree. Strings are byte strings, as Go's are.
\<close>

datatype re =
    Eps
  | Lit char
  | Digit
  | Bol
  | Eol
  | Cat re re
  | Alt re re
  | Opt re
  | Plus re
  | Cap nat re

text \<open>
  A matcher state: the text still to be read, the position reached, and the text captured
  by each group so far (index 0 is the whole match).
\<close>

record mstate =
  rest :: string
  pos :: nat
  caps :: "string list"

definition is_digit :: "char \<Rightarrow> bool" where
  "is_digit c = (48 \<le> (of_char c :: nat) \<and> (of_char c :: nat) \<le> 57)"

definition advance :: "mstate \<Rightarrow> mstate" where
  "advance st = st\<lparr>rest := tl (rest st), pos := Suc (pos st)\<rparr>"

text \<open>
  Go's \<open>regexp\<close> returns the match a backtracking search finds first (leftmost-first:
  the left alternative before the right one, one more repetition before stopping).
  \<open>rematch r st\<close> lists, in that order of preference, every state in which a match of
  \<open>r\<close> begun in \<open>st\<close> can end. An iteration of \<open>Plus\<close> that reads nothing is not
  repeated; in the patterns below every iteration reads one character.
\<close>

function rematch :: "re \<Rightarrow> mstate \<Rightarrow> mstate list" where
  "rematch Eps st = [st]"
| "rematch (Lit c) st =
     (case rest st of [] \<Rightarrow> [] | x # xs \<Rightarrow> if x = c then [advance st] else [])"
| "rematch Digit st =
     (case rest st of [] \<Rightarrow> [] | x # xs \<Rightarrow> if is_digit x then [advance st] else [])"
| "rematch Bol st = (if pos st = 0 then [st] else [])"
| "rematch Eol st = (if rest st = [] then [st] else [])"
| "rematch (Cat r1 r2) st = concat (map (rematch r2) (rematch r1 st))"
| "rematch (Alt r1 r2) st = rematch r1 st @ rematch r2 st"
| "rematch (Opt r) st = rematch r st @ [st]"
| "rematch (Plus r) st =
     concat (map (\<lambda>st'. (if length (rest st') < length (rest st)
                          then rematch (Plus r) st' else []) @ [st'])
                 (rematch r st))"
| "rematch (Cap i r) st =
     map (\<lambda>st'. st'\<lparr>caps := (caps st')[i := take (pos st' - pos st) (rest st)]\<rparr>)
         (rematch r st)"
  by pat_completeness auto
termination
  by (relation "inv_image (less_than <*lex*> less_than) (\<lambda>(r, st). (size r, length (rest st)))")
     auto

text \<open>
  Bounded repetition \<^verbatim>\<open>x{n,m}\<close>, expanded as Go's \<open>regexp/syntax\<close> simplifier does:
  \<open>n\<close> copies of \<open>x\<close> followed by \<open>m - n\<close> nested optional copies.
\<close>

fun Repeat :: "re \<Rightarrow> nat \<Rightarrow> nat \<Rightarrow> re" where
  "Repeat r 0 0 = Eps"
| "Repeat r 0 (Suc m) = Opt (Cat r (Repeat r 0 m))"
| "Repeat r (Suc n) m = Cat r (Repeat r n (m - 1))"

text \<open>A literal string.\<close>

fun lits :: "string \<Rightarrow> re" where
  "lits [] = Eps"
| "lits [c] = Lit c"
| "lits (c # cs) = Cat (Lit c) (lits cs)"

text \<open>The highest group number of a pattern.\<close>

fun ncaps :: "re \<Rightarrow> nat" where
  "ncaps (Cat r1 r2) = max (ncaps r1) (ncaps r2)"
| "ncaps (Alt r1 r2) = max (ncaps r1) (ncaps r2)"
| "ncaps (Opt r) = ncaps r"
| "ncaps (Plus r) = ncaps r"
| "ncaps (Cap i r) = max i (ncaps r)"
| "ncaps _ = 0"

text \<open>
  \<open>FindStringSubmatch\<close> returns the leftmost match: the first start position at which
  the pattern matches, and there the preferred match. The result is the text of the whole
  match followed by the text of each group (empty for a group that took no part), and
  \<open>nil\<close>, here the empty list, when there is no match.
\<close>

definition match_at :: "re \<Rightarrow> string \<Rightarrow> nat \<Rightarrow> string list" where
  "match_at r s i =
     (case rematch (Cap 0 r) \<lparr>rest = drop i s, pos = i, caps = replicate (Suc (ncaps r)) []\<rparr> of
        [] \<Rightarrow> []
      | st # _ \<Rightarrow> caps st)"

fun first_match :: "re \<Rightarrow> string \<Rightarrow> nat list \<Rightarrow> string list" where
  "first_match r s [] = []"
| "first_match r s (i # is) = (case match_at r s i of [] \<Rightarrow> first_match r s is | m \<Rightarrow> m)"

definition FindStringSubmatch :: "re \<Rightarrow> string \<Rightarrow> string list" where
  "FindStringSubmatch r s = first_match r s [0..<Suc (length s)]"

subsection \<open>The patterns of internal/widget/fields.go\<close>

text \<open>
  \<^verbatim>\<open>HSLColorPattern = ^(?:hsla?\()?(\d{1,3})(?: |,)+(\d{1,3})%?(?: |,)+(\d{1,3})%?\)?$\<close>
\<close>

definition sep :: re where
  "sep = Alt (Lit CHR '' '') (Lit CHR '','')"

definition HSLColorPattern :: re where
  "HSLColorPattern =
     Cat Bol (Cat (Opt (Cat (lits ''hsl'') (Cat (Opt (Lit CHR ''a'')) (Lit CHR ''(''))))
     (Cat (Cap 1 (Repeat Digit 1 3)) (Cat (Plus sep)
     (Cat (Cap 2 (Repeat Digit 1 3)) (Cat (Opt (Lit CHR ''%'')) (Cat (Plus sep)
     (Cat (Cap 3 (Repeat Digit 1 3)) (Cat (Opt (Lit CHR ''%'')) (Cat (Opt (Lit CHR '')''))
      Eol)))))))))"

text \<open>\<^verbatim>\<open>DurationPattern = ^(\d+)(s|m|h|d)$\<close>\<close>

definition DurationPattern :: re where
  "DurationPattern =
     Cat Bol (Cat (Cap 1 (Plus Digit))
       (Cat (Cap 2 (Alt (Lit CHR ''s'') (Alt (Lit CHR ''m'') (Alt (Lit CHR ''h'') (Lit CHR ''d'')))))
        Eol))"

subsection \<open>\<open>strconv.ParseUint\<close> and \<open>strconv.Atoi\<close>\<close>

text \<open>
  The two functions of Go's standard library that the field parsers call, in base 10.
  \<open>ParseUint\<close> follows the library's loop: a character that is not a digit is a syntax
  error, and a range error is reported as soon as the value read so far leaves the 64 bits
  of the accumulator or exceeds the largest value of \<open>bitSize\<close> bits. The accumulator is
  a \<open>uint64\<close>; it is a \<open>nat\<close> here with the wrap-around of the addition written out.
\<close>

datatype num_err = ErrSyntax | ErrRange

definition digit_val :: "char \<Rightarrow> nat" where
  "digit_val c = of_char c - 48"

definition cutoff64 :: nat where
  "cutoff64 = (2 ^ 64 - 1) div 10 + 1"

fun ParseUint_loop :: "nat \<Rightarrow> nat \<Rightarrow> string \<Rightarrow> num_err + nat" where
  "ParseUint_loop maxVal n [] = Inr n"
| "ParseUint_loop maxVal n (c # cs) =
     (if \<not> is_digit c then Inl ErrSyntax
      else if n \<ge> cutoff64 then Inl ErrRange
      else let n10 = n * 10;
               n1 = (n10 + digit_val c) mod 2 ^ 64
           in if n1 < n10 \<or> n1 > maxVal then Inl ErrRange
              else ParseUint_loop maxVal n1 cs)"

definition ParseUint :: "string \<Rightarrow> nat \<Rightarrow> num_err + nat" where
  "ParseUint s bitSize =
     (if s = [] then Inl ErrSyntax else ParseUint_loop (2 ^ bitSize - 1) 0 s)"

text \<open>
  \<open>Atoi(s)\<close> is \<open>ParseInt(s, 10, 0)\<close> converted to \<open>int\<close>, which has 64 bits on the
  platforms the program targets: an optional sign, then \<open>ParseUint\<close> on the rest, then
  the check against the signed range.
\<close>

definition ParseInt64 :: "string \<Rightarrow> num_err + int" where
  "ParseInt64 s =
     (if s = [] then Inl ErrSyntax
      else
        let neg = (hd s = CHR ''-'');
            s1 = (if hd s = CHR ''+'' \<or> hd s = CHR ''-'' then tl s else s);
            check = (\<lambda>un. if \<not> neg \<and> un \<ge> 2 ^ 63 then Inl ErrRange
                           else if neg \<and> un > 2 ^ 63 then Inl ErrRange
                           else Inr (if neg then - int un else int un))
        in case ParseUint s1 64 of
             Inl ErrSyntax \<Rightarrow> Inl ErrSyntax
           | Inl ErrRange \<Rightarrow> check (2 ^ 64 - 1)
           | Inr un \<Rightarrow> check un)"

definition Atoi :: "string \<Rightarrow> num_err + int" where
  "Atoi s = ParseInt64 s"

subsection \<open>The YAML fields (internal/widget/fields.go)\<close>

text \<open>
  The errors the two \<open>UnmarshalYAML\<close> methods return: the error of \<open>node.Decode\<close>, the
  two format errors, a \<open>strconv.NumError\<close> (function, input, kind), and the three range
  errors of the colour components.
\<close>

datatype widget_error =
    YamlDecodeError string
  | InvalidHSLColorFormat string
  | NumError string string num_err
  | HueOutOfRange
  | SaturationOutOfRange
  | LightnessOutOfRange
  | InvalidDurationFormat string

text \<open>
  A \<open>yaml.Node\<close> is used only through \<open>node.Decode(&value)\<close> with a string target; the
  node is modelled by what that call yields, an error or the decoded string.
\<close>

datatype yaml_node = Node (Decode: "widget_error + string")

definition HSLHueMax :: nat where
  "HSLHueMax = 360"

definition HSLSaturationMax :: nat where
  "HSLSaturationMax = 100"

definition HSLLightnessMax :: nat where
  "HSLLightnessMax = 100"

record HSLColorField =
  Hue :: "16 word"
  Saturation :: "8 word"
  Lightness :: "8 word"

text \<open>
  Both methods write through their pointer receiver; the models return the field as it is
  after the call together with the error (\<open>None\<close> for \<open>nil\<close>).
\<close>

definition HSLColorField_UnmarshalYAML ::
  "HSLColorField \<Rightarrow> yaml_node \<Rightarrow> HSLColorField \<times> widget_error option" where
  "HSLColorField_UnmarshalYAML c node =
     (case Decode node of
        Inl err \<Rightarrow> (c, Some err)
      | Inr value \<Rightarrow>
          (let matches = FindStringSubmatch HSLColorPattern value in
           if length matches \<noteq> 4 then (c, Some (InvalidHSLColorFormat value))
           else (case ParseUint (matches ! 1) 16 of
             Inl err \<Rightarrow> (c, Some (NumError ''ParseUint'' (matches ! 1) err))
           | Inr hue \<Rightarrow>
               if hue > HSLHueMax then (c, Some HueOutOfRange)
               else (case ParseUint (matches ! 2) 8 of
                 Inl err \<Rightarrow> (c, Some (NumError ''ParseUint'' (matches ! 2) err))
               | Inr saturation \<Rightarrow>
                   if saturation > HSLSaturationMax then (c, Some SaturationOutOfRange)
                   else (case ParseUint (matches ! 3) 8 of
                     Inl err \<Rightarrow> (c, Some (NumError ''ParseUint'' (matches ! 3) err))
                   | Inr lightness \<Rightarrow>
                       if lightness > HSLLightnessMax then (c, Some LightnessOutOfRange)
                       else (c\<lparr>Hue := of_nat hue, Saturation := of_nat saturation,
                               Lightness := of_nat lightness\<rparr>, None))))))"

text \<open>
  \<open>DurationField\<close> is a \<open>time.Duration\<close>, an \<open>int64\<close> count of nanoseconds: a 64-bit
  word, read as a signed number by \<open>sint\<close>. The products are Go's wrapping \<open>int64\<close>
  multiplications.
\<close>

type_synonym DurationField = "64 word"

definition Second :: "64 word" where
  "Second = 1000000000"

definition Minute :: "64 word" where
  "Minute = 60 * Second"

definition Hour :: "64 word" where
  "Hour = 60 * Minute"

definition DurationField_UnmarshalYAML ::
  "DurationField \<Rightarrow> yaml_node \<Rightarrow> DurationField \<times> widget_error option" where
  "DurationField_UnmarshalYAML d node =
     (case Decode node of
        Inl err \<Rightarrow> (d, Some err)
      | Inr value \<Rightarrow>
          (let matches = FindStringSubmatch DurationPattern value in
           if length matches \<noteq> 3 then (d, Some (InvalidDurationFormat value))
           else (case Atoi (matches ! 1) of
             Inl err \<Rightarrow> (d, Some (NumError ''Atoi'' (matches ! 1) err))
           | Inr duration \<Rightarrow>
               if matches ! 2 = ''s'' then (word_of_int duration * Second, None)
               else if matches ! 2 = ''m'' then (word_of_int duration * Minute, None)
               else if matches ! 2 = ''h'' then (word_of_int duration * Hour, None)
               else if matches ! 2 = ''d'' then (word_of_int duration * 24 * Hour, None)
               else (d, None))))"

subsection \<open>Stock data (FetchStocksDataFromYahoo)\<close>

text \<open>
  The sentinel errors \<open>ErrNoContent\<close> and \<open>ErrPartialContent\<close>, any other error value
  (known by its message), and the two wrapping errors the function builds:
  \<^verbatim>\<open>fmt.Errorf("%w: %v", ErrNoContent, err)\<close> is \<open>WrapCause ErrNoContent err\<close>, and
  \<^verbatim>\<open>fmt.Errorf("%w: could not fetch data for %d stock(s)", ErrPartialContent, failed)\<close>
  is \<open>WrapFailedCount ErrPartialContent failed\<close>. \<open>errors_Is\<close> is Go's \<open>errors.Is\<close>: it
  follows the \<^verbatim>\<open>%w\<close> chain.
\<close>

datatype feed_error =
    ErrNoContent
  | ErrPartialContent
  | OtherError string
  | WrapCause feed_error feed_error
  | WrapFailedCount feed_error nat

fun errors_Is :: "feed_error \<Rightarrow> feed_error \<Rightarrow> bool" where
  "errors_Is (WrapCause w c) target = (WrapCause w c = target \<or> errors_Is w target)"
| "errors_Is (WrapFailedCount w n) target = (WrapFailedCount w n = target \<or> errors_Is w target)"
| "errors_Is e target = (e = target)"

text \<open>An index outside a slice stops the function with a run-time panic.\<close>

datatype go_panic = IndexOutOfRange

text \<open>
  The anonymous structs of \<open>stockResponseJson\<close>, from the inside out. The fields are
  \<open>float64\<close>; none of the claims depends on their arithmetic, so the type of floats is a
  parameter \<open>'f\<close>. The field \<open>Symbol\<close> exists in three structs and \<open>Name\<close> in two; the
  ones of \<open>Meta\<close> and \<open>StockRequest\<close> carry a prefix here.
\<close>

record 'f Meta =
  meta_Symbol :: string
  RegularMarketPrice :: 'f
  ChartPreviousClose :: 'f

record 'f QuoteEntry =
  Close :: "'f list"

record 'f Indicators =
  Quote :: "'f QuoteEntry list"

record 'f ChartResult =
  Meta :: "'f Meta"
  Indicators :: "'f Indicators"

record 'f Chart =
  Result :: "'f ChartResult list"

record 'f stockResponseJson =
  Chart :: "'f Chart"

record StockRequest =
  req_Symbol :: string
  req_Name :: string

text \<open>
  \<open>Stock\<close> is declared outside the sources; these are the fields the struct literal
  of \<open>FetchStocksDataFromYahoo\<close> sets.
\<close>

record 'f Stock =
  Name :: string
  Symbol :: string
  Price :: 'f
  PercentChange :: 'f
  SvgChartPoints :: string

text \<open>
  What the function needs of \<open>float64\<close> and the three helpers it calls that are
  declared outside the sources: a constant, the comparison \<^verbatim>\<open>!=\<close>, \<open>percentChange\<close>,
  \<open>maybeCopySliceWithoutZeroValues\<close> and \<open>SvgPolylineCoordsFromYValues\<close>.
\<close>

record 'f float_ops =
  float_const :: "int \<Rightarrow> 'f"
  float_neq :: "'f \<Rightarrow> 'f \<Rightarrow> bool"
  percentChange :: "'f \<Rightarrow> 'f \<Rightarrow> 'f"
  maybeCopySliceWithoutZeroValues :: "'f list \<Rightarrow> 'f list"
  SvgPolylineCoordsFromYValues :: "'f \<Rightarrow> 'f \<Rightarrow> 'f list \<Rightarrow> string"

definition stockChartDays :: nat where
  "stockChartDays = 21"

text \<open>The URL of a request; a request is known by its URL (the method is always GET).\<close>

definition chart_url :: "string \<Rightarrow> string" where
  "chart_url symbol =
     ''https://query1.finance.yahoo.com/v8/finance/chart/'' @ symbol @ ''?range=1mo&interval=1d''"

text \<open>
  Lines 67 to 90 of the loop body: the stock built from a request, the first chart result
  and its first quote entry.
\<close>

definition build_stock ::
  "'f float_ops \<Rightarrow> StockRequest \<Rightarrow> 'f ChartResult \<Rightarrow> 'f QuoteEntry \<Rightarrow> 'f Stock" where
  "build_stock ops request result0 quote0 =
     (let prices = Close quote0;
          prices = (if length prices > stockChartDays
                    then drop (length prices - stockChartDays) prices else prices);
          previous = RegularMarketPrice (Meta result0);
          previous = (if length prices \<ge> 2
                         \<and> float_neq ops (prices ! (length prices - 2)) (float_const ops 0)
                      then prices ! (length prices - 2) else previous);
          points = SvgPolylineCoordsFromYValues ops (float_const ops 100) (float_const ops 50)
                     (maybeCopySliceWithoutZeroValues ops prices)
      in \<lparr>Name = req_Name request,
          Symbol = meta_Symbol (Meta result0),
          Price = RegularMarketPrice (Meta result0),
          PercentChange = percentChange ops (RegularMarketPrice (Meta result0)) previous,
          SvgChartPoints = points\<rparr>)"

text \<open>
  One round of \<^verbatim>\<open>for i := range responses\<close>, on the pair of the slice \<open>stocks\<close> and the
  counter \<open>failed\<close>. Reading \<open>errs[i]\<close>, \<open>stockRequests[i]\<close> or \<open>Quote[0]\<close> outside the
  slice panics. The counter is at most the number of responses, so it is a \<open>nat\<close>.
\<close>

definition stock_step ::
  "'f float_ops \<Rightarrow> StockRequest list \<Rightarrow> 'f stockResponseJson list \<Rightarrow> feed_error option list
     \<Rightarrow> nat \<Rightarrow> 'f Stock list \<times> nat \<Rightarrow> go_panic + ('f Stock list \<times> nat)" where
  "stock_step ops stockRequests responses errs i acc =
     (case acc of (stocks, failed) \<Rightarrow>
        if i \<ge> length errs then Inl IndexOutOfRange
        else if errs ! i \<noteq> None then
          (if i \<ge> length stockRequests then Inl IndexOutOfRange
           else Inr (stocks, failed + 1))
        else
          let response = responses ! i in
          if length (Result (Chart response)) = 0 then
            (if i \<ge> length stockRequests then Inl IndexOutOfRange
             else Inr (stocks, failed + 1))
          else
            (case Quote (Indicators (hd (Result (Chart response)))) of
               [] \<Rightarrow> Inl IndexOutOfRange
             | quote0 # _ \<Rightarrow>
                 if i \<ge> length stockRequests then Inl IndexOutOfRange
                 else Inr (stocks @ [build_stock ops (stockRequests ! i)
                                       (hd (Result (Chart response))) quote0],
                           failed)))"

fun stocks_loop ::
  "'f float_ops \<Rightarrow> StockRequest list \<Rightarrow> 'f stockResponseJson list \<Rightarrow> feed_error option list
     \<Rightarrow> nat list \<Rightarrow> 'f Stock list \<times> nat \<Rightarrow> go_panic + ('f Stock list \<times> nat)" where
  "stocks_loop ops stockRequests responses errs [] acc = Inr acc"
| "stocks_loop ops stockRequests responses errs (i # is) acc =
     (case stock_step ops stockRequests responses errs i acc of
        Inl p \<Rightarrow> Inl p
      | Inr acc' \<Rightarrow> stocks_loop ops stockRequests responses errs is acc')"

text \<open>
  \<open>newJob\<close>, \<open>decodeJsonFromRequestTask\<close> and \<open>workerPoolDo\<close> are declared outside the
  sources. The parameter \<open>exec\<close> stands for lines 42 and 43 together: it takes the
  requests and returns what \<open>workerPoolDo(job)\<close> returns, the responses, the per-request
  errors and the error of the batch. The source discards the error of \<open>http.NewRequest\<close>;
  what a request that could not be built leads to is part of what \<open>exec\<close> returns. The
  function returns its pair of results, or panics.
\<close>

definition FetchStocksDataFromYahoo ::
  "'f float_ops
     \<Rightarrow> (string list \<Rightarrow> 'f stockResponseJson list \<times> feed_error option list \<times> feed_error option)
     \<Rightarrow> StockRequest list \<Rightarrow> go_panic + ('f Stock list \<times> feed_error option)" where
  "FetchStocksDataFromYahoo ops exec stockRequests =
     (let requests = map (\<lambda>r. chart_url (req_Symbol r)) stockRequests in
      case exec requests of (responses, errs, err) \<Rightarrow>
        (case err of
           Some e \<Rightarrow> Inr ([], Some (WrapCause ErrNoContent e))
         | None \<Rightarrow>
             (case stocks_loop ops stockRequests responses errs [0..<length responses] ([], 0) of
                Inl p \<Rightarrow> Inl p
              | Inr (stocks, failed) \<Rightarrow>
                  if length stocks = 0 then Inr ([], Some ErrNoContent)
                  else if failed > 0
                    then Inr (stocks, Some (WrapFailedCount ErrPartialContent failed))
                  else Inr (stocks, None))))"

subsection \<open>The worker pool executor\<close>

text \<open>
  Modelled from the spec: \<open>workerPoolDo\<close>, the worker pool executor, is declared outside
  the sources (only its call in \<open>FetchStocksDataFromYahoo\<close> is there). Sections 4.2 and 5
  of the specification: the result and error sequences have one slot per unit; each
  unit's outcome is written to the slot of its own index, a failed unit leaving the
  default value in its result slot; the order in which units complete is not fixed; the
  batch error is set only when the execution substrate could not be started, never
  because units failed; an empty batch returns empty sequences and no error.
  \<open>completion\<close> is the order in which the units complete, \<open>substrate\<close> the error of
  starting the substrate, if any, \<open>task\<close> the transform bound to the job and \<open>zero\<close>
  the default value of a result. \<open>run_unit\<close> is the completion of one unit.
\<close>

definition run_unit ::
  "('i \<Rightarrow> feed_error + 'o) \<Rightarrow> 'o \<Rightarrow> 'i list \<Rightarrow> nat
     \<Rightarrow> 'o list \<times> feed_error option list \<Rightarrow> 'o list \<times> feed_error option list" where
  "run_unit task zero data i slots =
     (case slots of (results, errs) \<Rightarrow>
        if i < length data then
          (case task (data ! i) of
             Inl e \<Rightarrow> (results[i := zero], errs[i := Some e])
           | Inr v \<Rightarrow> (results[i := v], errs[i := None]))
        else (results, errs))"

text \<open>
  Modelled from the spec: the executor itself. Every slot starts with its default; when the
  substrate does not start, the slots are returned as they are with the batch error;
  otherwise the units run in their order of completion and there is no batch error.
\<close>

definition workerPoolDo ::
  "feed_error option \<Rightarrow> nat list \<Rightarrow> ('i \<Rightarrow> feed_error + 'o) \<Rightarrow> 'o \<Rightarrow> 'i list
     \<Rightarrow> 'o list \<times> feed_error option list \<times> feed_error option" where
  "workerPoolDo substrate completion task zero data =
     (let results = replicate (length data) zero;
          errs = replicate (length data) None
      in case substrate of
           Some e \<Rightarrow> (results, errs, Some e)
         | None \<Rightarrow>
             (case fold (run_unit task zero data) completion (results, errs) of
                (results', errs') \<Rightarrow> (results', errs', None)))"

subsection \<open>Notions used in the statements\<close>

text \<open>The text a match has read between two states, and whether a pattern has group \<open>i\<close>.\<close>

definition consumed :: "mstate \<Rightarrow> mstate \<Rightarrow> string" where
  "consumed st st' = take (pos st' - pos st) (rest st)"

fun has_cap :: "nat \<Rightarrow> re \<Rightarrow> bool" where
  "has_cap i (Cat r1 r2) = (has_cap i r1 \<or> has_cap i r2)"
| "has_cap i (Alt r1 r2) = (has_cap i r1 \<or> has_cap i r2)"
| "has_cap i (Opt r) = has_cap i r"
| "has_cap i (Plus r) = has_cap i r"
| "has_cap i (Cap j r) = (i = j \<or> has_cap i r)"
| "has_cap i _ = False"

text \<open>One to three decimal digits, and the number a string of digits denotes.\<close>

definition digits13 :: "string \<Rightarrow> bool" where
  "digits13 t = (t \<noteq> [] \<and> length t \<le> 3 \<and> list_all is_digit t)"

definition decimal :: "string \<Rightarrow> nat" where
  "decimal s = foldl (\<lambda>n c. n * 10 + digit_val c) 0 s"

text \<open>
  One or more digits followed by one of the letters s, m, h, d; and the nanoseconds of
  the unit a letter stands for (a second, a minute, an hour, a day of 24 hours).
\<close>

definition duration_shape :: "string \<Rightarrow> bool" where
  "duration_shape s =
     (s \<noteq> [] \<and> butlast s \<noteq> [] \<and> list_all is_digit (butlast s) \<and> last s \<in> set ''smhd'')"

definition unit_nanos :: "char \<Rightarrow> nat" where
  "unit_nanos u =
     (if u = CHR ''s'' then 1000000000
      else if u = CHR ''m'' then 60000000000
      else if u = CHR ''h'' then 3600000000000
      else 86400000000000)"

text \<open>
  The loop of \<open>FetchStocksDataFromYahoo\<close> counts unit \<open>i\<close> as failed when \<open>errs[i]\<close> is not
  nil or the decoded response has no chart result. \<open>has_quote\<close> says that the first chart
  result of a response has a quote entry, and \<open>stock_of\<close> is the stock the loop appends
  for a usable unit.
\<close>

definition unit_failed :: "'f stockResponseJson list \<Rightarrow> feed_error option list \<Rightarrow> nat \<Rightarrow> bool" where
  "unit_failed responses errs i = (errs ! i \<noteq> None \<or> Result (Chart (responses ! i)) = [])"

definition has_quote :: "'f stockResponseJson \<Rightarrow> bool" where
  "has_quote response = (Quote (Indicators (hd (Result (Chart response)))) \<noteq> [])"

definition stock_of :: "'f float_ops \<Rightarrow> StockRequest \<Rightarrow> 'f stockResponseJson \<Rightarrow> 'f Stock" where
  "stock_of ops request response =
     build_stock ops request (hd (Result (Chart response)))
       (hd (Quote (Indicators (hd (Result (Chart response))))))"

text \<open>
  Modelled from the spec: the value and the error the executor stores for a unit (the
  default value and the error of a unit that failed, the value and no error otherwise).
\<close>

definition unit_result :: "('i \<Rightarrow> feed_error + 'o) \<Rightarrow> 'o \<Rightarrow> 'i \<Rightarrow> 'o" where
  "unit_result task zero x = (case task x of Inl e \<Rightarrow> zero | Inr v \<Rightarrow> v)"

definition unit_error :: "('i \<Rightarrow> feed_error + 'o) \<Rightarrow> 'i \<Rightarrow> feed_error option" where
  "unit_error task x = (case task x of Inl e \<Rightarrow> Some e | Inr v \<Rightarrow> None)"

text \<open>
  Values for the concrete cases below: float operations on \<open>int\<close>, a response without
  chart result, a response with one chart result whose quote entry holds the given
  closing prices, one with a chart result but no quote entry, and a request.
\<close>

definition int_ops :: "int float_ops" where
  "int_ops = \<lparr>float_const = (\<lambda>n. n), float_neq = (\<lambda>a b. a \<noteq> b),
     percentChange = (\<lambda>current previous. current - previous),
     maybeCopySliceWithoutZeroValues = filter (\<lambda>x. x \<noteq> 0),
     SvgPolylineCoordsFromYValues = (\<lambda>w h ys. [])\<rparr>"

definition no_data :: "int stockResponseJson" where
  "no_data = \<lparr>Chart = \<lparr>Result = []\<rparr>\<rparr>"

definition quoted :: "string \<Rightarrow> int \<Rightarrow> int list \<Rightarrow> int stockResponseJson" where
  "quoted symbol price closes =
     \<lparr>Chart = \<lparr>Result = [\<lparr>Meta = \<lparr>meta_Symbol = symbol, RegularMarketPrice = price,
                                       ChartPreviousClose = price\<rparr>,
                              Indicators = \<lparr>Quote = [\<lparr>Close = closes\<rparr>]\<rparr>\<rparr>]\<rparr>\<rparr>"

definition unquoted :: "string \<Rightarrow> int \<Rightarrow> int stockResponseJson" where
  "unquoted symbol price =
     \<lparr>Chart = \<lparr>Result = [\<lparr>Meta = \<lparr>meta_Symbol = symbol, RegularMarketPrice = price,
                                       ChartPreviousClose = price\<rparr>,
                              Indicators = \<lparr>Quote = []\<rparr>\<rparr>]\<rparr>\<rparr>"

definition request :: "string \<Rightarrow> StockRequest" where
  "request symbol = \<lparr>req_Symbol = symbol, req_Name = symbol\<rparr>"

section \<open>Verification\<close>

subsection \<open>Reddit.Initialize\<close>



subsection \<open>Facts about the matcher\<close>

declare rematch.simps(9) [simp del]

lemma rematch_caps_length:
  "st' \<in> set (rematch r st) \<Longrightarrow> length (caps st') = length (caps st)"
proof (induction r st arbitrary: st' rule: rematch.induct)
  case (9 r st)
  then show ?case
    by (subst (asm) rematch.simps(9)) (auto split: if_splits)
qed (auto simp: advance_def split: list.splits if_splits)

lemma rematch_caps_keep:
  "st' \<in> set (rematch r st) \<Longrightarrow> \<not> has_cap i r \<Longrightarrow> caps st' ! i = caps st ! i"
proof (induction r st arbitrary: st' rule: rematch.induct)
  case (9 r st)
  then show ?case
    by (subst (asm) rematch.simps(9)) (auto split: if_splits)
qed (auto simp: advance_def split: list.splits if_splits)

lemma rematch_Cat_iff:
  "st' \<in> set (rematch (Cat r1 r2) st) \<longleftrightarrow> (\<exists>sm \<in> set (rematch r1 st). st' \<in> set (rematch r2 sm))"
  by auto

lemma rematch_Cap_iff:
  "st' \<in> set (rematch (Cap i r) st) \<longleftrightarrow>
     (\<exists>sm \<in> set (rematch r st). st' = sm\<lparr>caps := (caps sm)[i := consumed st sm]\<rparr>)"
  by (auto simp: consumed_def)

lemma rematch_Opt_iff:
  "st' \<in> set (rematch (Opt r) st) \<longleftrightarrow> st' \<in> set (rematch r st) \<or> st' = st"
  by auto

lemma rematch_Alt_iff:
  "st' \<in> set (rematch (Alt r1 r2) st) \<longleftrightarrow> st' \<in> set (rematch r1 st) \<or> st' \<in> set (rematch r2 st)"
  by auto

lemma rematch_Digit_iff:
  "st' \<in> set (rematch Digit st) \<longleftrightarrow>
     (\<exists>x xs. rest st = x # xs \<and> is_digit x \<and> st' = st\<lparr>rest := xs, pos := Suc (pos st)\<rparr>)"
  by (cases "rest st") (auto simp: advance_def)

lemma rematch_Lit_iff:
  "st' \<in> set (rematch (Lit c) st) \<longleftrightarrow>
     (\<exists>xs. rest st = c # xs \<and> st' = st\<lparr>rest := xs, pos := Suc (pos st)\<rparr>)"
  by (cases "rest st") (auto simp: advance_def)

lemma rematch_Eps_iff: "st' \<in> set (rematch Eps st) \<longleftrightarrow> st' = st"
  by auto

lemma rematch_Bol_iff: "st' \<in> set (rematch Bol st) \<longleftrightarrow> pos st = 0 \<and> st' = st"
  by auto

lemma rematch_Eol_iff: "st' \<in> set (rematch Eol st) \<longleftrightarrow> rest st = [] \<and> st' = st"
  by auto

lemmas rematch_iffs = rematch_Cat_iff rematch_Cap_iff rematch_Opt_iff rematch_Alt_iff
  rematch_Digit_iff rematch_Lit_iff rematch_Eps_iff rematch_Bol_iff rematch_Eol_iff

lemma rematch_CatE:
  assumes "st' \<in> set (rematch (Cat r1 r2) st)"
  obtains sm where "sm \<in> set (rematch r1 st)" and "st' \<in> set (rematch r2 sm)"
  using assms by (auto simp: rematch_Cat_iff)

declare rematch.simps [simp del]

lemma Repeat_1_3: "Repeat r 1 3 = Cat r (Opt (Cat r (Opt (Cat r Eps))))"
  by (simp add: numeral_3_eq_3)

lemma has_cap_Repeat: "has_cap i (Repeat r n m) \<Longrightarrow> has_cap i r"
  by (induction r n m rule: Repeat.induct) auto

lemma ncaps_Repeat: "ncaps (Repeat r n m) \<le> ncaps r"
  by (induction r n m rule: Repeat.induct) auto

lemma rematch_digits13:
  assumes "st' \<in> set (rematch (Repeat Digit 1 3) st)"
  shows "digits13 (consumed st st')"
  using assms unfolding Repeat_1_3
  by (auto simp: rematch_iffs digits13_def consumed_def)

lemma rematch_group_digits13:
  assumes "st' \<in> set (rematch (Cat (Cap i (Repeat Digit 1 3)) r) st)"
    and "\<not> has_cap i r" and "i < length (caps st)"
  shows "digits13 (caps st' ! i)"
proof -
  from assms(1) obtain sm where sm_in: "sm \<in> set (rematch (Cap i (Repeat Digit 1 3)) st)"
    and st': "st' \<in> set (rematch r sm)"
    by (auto simp: rematch_Cat_iff)
  from sm_in obtain sd where sd: "sd \<in> set (rematch (Repeat Digit 1 3) st)"
    and sm: "sm = sd\<lparr>caps := (caps sd)[i := consumed st sd]\<rparr>"
    by (auto simp: rematch_Cap_iff)
  have "length (caps sd) = length (caps st)"
    using sd by (rule rematch_caps_length)
  with sm assms(3) have "caps sm ! i = consumed st sd" by simp
  moreover have "caps st' ! i = caps sm ! i"
    using st' assms(2) by (rule rematch_caps_keep)
  ultimately show ?thesis using rematch_digits13 [OF sd] by simp
qed

lemma rematch_Plus_Digit_iff:
  "st' \<in> set (rematch (Plus Digit) st) \<longleftrightarrow>
     (\<exists>ds r. ds \<noteq> [] \<and> list_all is_digit ds \<and> rest st = ds @ r
        \<and> st' = st\<lparr>rest := r, pos := pos st + length ds\<rparr>)"
proof (induction "rest st" arbitrary: st st')
  case Nil
  then have "rematch Digit st = []" by (simp add: rematch.simps(3))
  with Nil [symmetric] show ?case by (subst rematch.simps(9)) simp
next
  case (Cons x xs)
  show ?case
  proof (cases "is_digit x")
    case False
    with Cons(2) [symmetric] have "rematch Digit st = []" by (simp add: rematch.simps(3))
    moreover have "\<not> (\<exists>ds r. ds \<noteq> [] \<and> list_all is_digit ds \<and> rest st = ds @ r)"
      using False Cons(2) [symmetric] by (auto simp: Cons_eq_append_conv)
    moreover have "rematch (Plus Digit) st = []"
      by (subst rematch.simps(9)) (simp add: calculation(1))
    ultimately show ?thesis by auto
  next
    case True
    define sa where "sa = st\<lparr>rest := xs, pos := Suc (pos st)\<rparr>"
    have d: "rematch Digit st = [sa]"
      using True Cons(2) [symmetric] by (simp add: rematch.simps(3) advance_def sa_def)
    have r: "xs = rest sa" by (simp add: sa_def)
    have "set (rematch (Plus Digit) st) = set (rematch (Plus Digit) sa) \<union> {sa}"
      using Cons(2) [symmetric] by (subst rematch.simps(9)) (simp add: d sa_def)
    then have "st' \<in> set (rematch (Plus Digit) st) \<longleftrightarrow>
        (\<exists>ds r. ds \<noteq> [] \<and> list_all is_digit ds \<and> xs = ds @ r
           \<and> st' = sa\<lparr>rest := r, pos := pos sa + length ds\<rparr>) \<or> st' = sa"
      using Cons(1) [OF r, of st'] by (auto simp: sa_def)
    also have "\<dots> \<longleftrightarrow> (\<exists>ds r. ds \<noteq> [] \<and> list_all is_digit ds \<and> rest st = ds @ r
        \<and> st' = st\<lparr>rest := r, pos := pos st + length ds\<rparr>)" (is "?L \<longleftrightarrow> ?R")
    proof
      assume ?L
      then show ?R
      proof
        assume "\<exists>ds r. ds \<noteq> [] \<and> list_all is_digit ds \<and> xs = ds @ r
           \<and> st' = sa\<lparr>rest := r, pos := pos sa + length ds\<rparr>"
        then obtain ds r where "ds \<noteq> []" "list_all is_digit ds" "xs = ds @ r"
          "st' = sa\<lparr>rest := r, pos := pos sa + length ds\<rparr>" by blast
        then have "x # ds \<noteq> [] \<and> list_all is_digit (x # ds) \<and> rest st = (x # ds) @ r
          \<and> st' = st\<lparr>rest := r, pos := pos st + length (x # ds)\<rparr>"
          using True Cons(2) [symmetric] by (simp add: sa_def)
        then show ?R by blast
      next
        assume "st' = sa"
        then have "[x] \<noteq> [] \<and> list_all is_digit [x] \<and> rest st = [x] @ xs
          \<and> st' = st\<lparr>rest := xs, pos := pos st + length [x]\<rparr>"
          using True Cons(2) [symmetric] by (simp add: sa_def)
        then show ?R by blast
      qed
    next
      assume ?R
      then obtain ds r where ds: "ds \<noteq> []" "list_all is_digit ds" "rest st = ds @ r"
          "st' = st\<lparr>rest := r, pos := pos st + length ds\<rparr>" by blast
      then obtain t where t: "ds = x # t" "xs = t @ r"
        using Cons(2) [symmetric] by (cases ds) auto
      show ?L
      proof (cases "t = []")
        case True
        with t ds show ?thesis by (simp add: sa_def)
      next
        case False
        with t ds have "t \<noteq> [] \<and> list_all is_digit t \<and> xs = t @ r
           \<and> st' = sa\<lparr>rest := r, pos := pos sa + length t\<rparr>"
          by (simp add: sa_def)
        then show ?thesis by blast
      qed
    qed
    finally show ?thesis .
  qed
qed

subsection \<open>Facts about \<open>ParseUint\<close> and \<open>Atoi\<close> on strings of digits\<close>

lemma foldl_dec_mono: "n \<le> foldl (\<lambda>n c. n * 10 + digit_val c) n cs"
proof (induction cs arbitrary: n)
  case Nil
  show ?case by simp
next
  case (Cons c cs)
  have "n \<le> n * 10 + digit_val c" by simp
  also have "\<dots> \<le> foldl (\<lambda>n c. n * 10 + digit_val c) (n * 10 + digit_val c) cs"
    by (rule Cons.IH)
  finally show ?case by simp
qed

lemma ParseUint_loop_digits:
  assumes "list_all is_digit cs" and "maxVal < 2 ^ 64" and "n \<le> maxVal"
  shows "ParseUint_loop maxVal n cs =
     (if foldl (\<lambda>n c. n * 10 + digit_val c) n cs \<le> maxVal
      then Inr (foldl (\<lambda>n c. n * 10 + digit_val c) n cs) else Inl ErrRange)"
  using assms(1,3)
proof (induction cs arbitrary: n)
  case Nil
  then show ?case by simp
next
  case (Cons c cs)
  let ?f = "foldl (\<lambda>n c. n * 10 + digit_val c)"
  from Cons.prems have dc: "is_digit c" and dcs: "list_all is_digit cs" by simp_all
  have d9: "digit_val c \<le> 9"
    using dc by (auto simp: is_digit_def digit_val_def)
  have mono: "n * 10 + digit_val c \<le> ?f (n * 10 + digit_val c) cs"
    by (rule foldl_dec_mono)
  show ?case
  proof (cases "n \<ge> cutoff64")
    case True
    then have "n * 10 + digit_val c > maxVal"
      using assms(2) by (simp add: cutoff64_def)
    with mono True dc show ?thesis by simp
  next
    case False
    then have small: "n * 10 + digit_val c < 2 * 2 ^ 64"
      using d9 by (simp add: cutoff64_def)
    show ?thesis
    proof (cases "n * 10 + digit_val c < 2 ^ 64")
      case True
      then have m: "(n * 10 + digit_val c) mod 2 ^ 64 = n * 10 + digit_val c" by simp
      show ?thesis
      proof (cases "n * 10 + digit_val c \<le> maxVal")
        case le: True
        from Cons.IH [OF dcs le] False dc le m show ?thesis
          by (simp add: Let_def)
      next
        case gt: False
        with mono have "\<not> ?f (n * 10 + digit_val c) cs \<le> maxVal" by simp
        with False dc gt m show ?thesis by (simp add: Let_def)
      qed
    next
      case nowrap: False
      then have "(n * 10 + digit_val c) mod 2 ^ 64 = n * 10 + digit_val c - 2 ^ 64"
        using small by (simp add: mod_if)
      moreover have "n * 10 + digit_val c - 2 ^ 64 < n * 10"
        using nowrap d9 by simp
      moreover have "\<not> ?f (n * 10 + digit_val c) cs \<le> maxVal"
        using mono nowrap assms(2) by simp
      ultimately show ?thesis
        using False dc by (simp add: Let_def)
    qed
  qed
qed

lemma ParseUint_digits:
  assumes "s \<noteq> []" and "list_all is_digit s" and "bitSize \<le> 64"
  shows "ParseUint s bitSize =
     (if decimal s < 2 ^ bitSize then Inr (decimal s) else Inl ErrRange)"
proof -
  have "(2::nat) ^ bitSize \<le> 2 ^ 64"
    by (rule power_increasing) (use assms(3) in simp_all)
  then have "(2::nat) ^ bitSize - 1 < 2 ^ 64"
    by (simp add: less_eq_Suc_le [symmetric] algebra_simps) 
  moreover have "(x \<le> 2 ^ bitSize - 1) = (x < 2 ^ bitSize)" for x :: nat
  proof -
    have "0 < (2::nat) ^ bitSize" by simp
    then show ?thesis by arith
  qed
  ultimately show ?thesis
    using ParseUint_loop_digits [OF assms(2), of "2 ^ bitSize - 1" 0] assms(1)
    by (simp add: ParseUint_def decimal_def)
qed

lemma foldl_dec_bound:
  "list_all is_digit cs \<Longrightarrow>
     foldl (\<lambda>n c. n * 10 + digit_val c) n cs < (n + 1) * 10 ^ length cs"
proof (induction cs arbitrary: n)
  case Nil
  show ?case by simp
next
  case (Cons c cs)
  then have dc: "is_digit c" and dcs: "list_all is_digit cs"
    by simp_all
  from dc have "digit_val c \<le> 9"
    by (auto simp: is_digit_def digit_val_def)
  then have "n * 10 + digit_val c + 1 \<le> (n + 1) * 10" by simp
  then have "(n * 10 + digit_val c + 1) * 10 ^ length cs \<le> (n + 1) * 10 * 10 ^ length cs"
    by (rule mult_le_mono1)
  with Cons.IH [OF dcs, of "n * 10 + digit_val c"]
  have "foldl (\<lambda>n c. n * 10 + digit_val c) (n * 10 + digit_val c) cs
          < (n + 1) * 10 * 10 ^ length cs"
    by simp
  then show ?case by (simp add: algebra_simps)
qed

lemma decimal_digits13:
  assumes "digits13 t"
  shows "decimal t < 1000"
proof -
  from assms have d: "list_all is_digit t" and l: "length t \<le> 3"
    by (simp_all add: digits13_def)
  have "decimal t < 10 ^ length t"
    using foldl_dec_bound [OF d, of 0] by (simp add: decimal_def)
  also have "(10::nat) ^ length t \<le> 10 ^ 3"
    by (rule power_increasing) (use l in simp_all)
  finally show ?thesis by simp
qed

lemma ParseUint_digits13_16:
  assumes "digits13 t"
  shows "ParseUint t 16 = Inr (decimal t)"
proof -
  from assms have "t \<noteq> []" "list_all is_digit t" by (simp_all add: digits13_def)
  from ParseUint_digits [OF this, of 16] decimal_digits13 [OF assms] show ?thesis by simp
qed

lemma ParseUint_digits13_8:
  assumes "digits13 t"
  shows "ParseUint t 8 = (if decimal t < 256 then Inr (decimal t) else Inl ErrRange)"
proof -
  from assms have "t \<noteq> []" "list_all is_digit t" by (simp_all add: digits13_def)
  from ParseUint_digits [OF this, of 8] show ?thesis by simp
qed

lemma Atoi_digits:
  assumes "ds \<noteq> []" and "list_all is_digit ds"
  shows "Atoi ds = (if decimal ds < 2 ^ 63 then Inr (int (decimal ds)) else Inl ErrRange)"
proof -
  from assms obtain c cs where c: "ds = c # cs" "is_digit c"
    by (cases ds) auto
  then have h: "hd ds \<noteq> CHR ''+''" "hd ds \<noteq> CHR ''-''"
    by (auto simp: is_digit_def)
  show ?thesis
    using ParseUint_digits [OF assms, of 64] h assms(1)
    by (simp add: Atoi_def ParseInt64_def Let_def)
qed

subsection \<open>HSLColorField.UnmarshalYAML\<close>

text \<open>The three groups of a match of \<open>HSLColorPattern\<close> are one to three digits each.\<close>

lemma HSL_groups:
  assumes "st' \<in> set (rematch HSLColorPattern st)" and "length (caps st) = 4"
  shows "digits13 (caps st' ! 1) \<and> digits13 (caps st' ! 2) \<and> digits13 (caps st' ! 3)"
proof -
  define D where "D = Repeat Digit 1 3"
  define R3 where "R3 = Cat (Opt (Lit CHR ''%'')) (Cat (Opt (Lit CHR '')'')) Eol)"
  define R2 where "R2 = Cat (Opt (Lit CHR ''%'')) (Cat (Plus sep) (Cat (Cap 3 D) R3))"
  define R1 where "R1 = Cat (Plus sep) (Cat (Cap 2 D) R2)"
  define pre where "pre = Opt (Cat (lits ''hsl'') (Cat (Opt (Lit CHR ''a'')) (Lit CHR ''('')))"
  have nD: "\<not> has_cap i D" for i
    using has_cap_Repeat [of i Digit 1 3] by (auto simp: D_def)
  have nc: "\<not> has_cap 1 R1" "\<not> has_cap 2 R2" "\<not> has_cap 3 R3"
    by (simp_all add: R1_def R2_def R3_def nD sep_def)
  have "st' \<in> set (rematch (Cat Bol (Cat pre (Cat (Cap 1 D) R1))) st)"
    using assms(1) by (simp add: HSLColorPattern_def D_def R1_def R2_def R3_def pre_def)
  then obtain s0 where s0: "s0 \<in> set (rematch Bol st)"
    and b0: "st' \<in> set (rematch (Cat pre (Cat (Cap 1 D) R1)) s0)"
    by (rule rematch_CatE)
  from b0 obtain s1 where s1: "s1 \<in> set (rematch pre s0)"
    and a1: "st' \<in> set (rematch (Cat (Cap 1 D) R1) s1)"
    by (rule rematch_CatE)
  have l1: "length (caps s1) = 4"
    using s0 s1 assms(2) by (simp add: rematch_caps_length)
  have g1: "digits13 (caps st' ! 1)"
    using a1 nc(1) l1 unfolding D_def by (intro rematch_group_digits13) auto
  from a1 obtain s2 where s2: "s2 \<in> set (rematch (Cap 1 D) s1)"
    and b2: "st' \<in> set (rematch (Cat (Plus sep) (Cat (Cap 2 D) R2)) s2)"
    unfolding R1_def by (rule rematch_CatE)
  from b2 obtain s3 where s3: "s3 \<in> set (rematch (Plus sep) s2)"
    and a2: "st' \<in> set (rematch (Cat (Cap 2 D) R2) s3)"
    by (rule rematch_CatE)
  have l3: "length (caps s3) = 4"
    using s2 s3 l1 by (simp add: rematch_caps_length)
  have g2: "digits13 (caps st' ! 2)"
    using a2 nc(2) l3 unfolding D_def by (intro rematch_group_digits13) auto
  from a2 obtain s4 where s4: "s4 \<in> set (rematch (Cap 2 D) s3)"
    and b4: "st' \<in> set (rematch (Cat (Opt (Lit CHR ''%'')) (Cat (Plus sep) (Cat (Cap 3 D) R3))) s4)"
    unfolding R2_def by (rule rematch_CatE)
  from b4 obtain s5 where s5: "s5 \<in> set (rematch (Opt (Lit CHR ''%'')) s4)"
    and b5: "st' \<in> set (rematch (Cat (Plus sep) (Cat (Cap 3 D) R3)) s5)"
    by (rule rematch_CatE)
  from b5 obtain s6 where s6: "s6 \<in> set (rematch (Plus sep) s5)"
    and a3: "st' \<in> set (rematch (Cat (Cap 3 D) R3) s6)"
    by (rule rematch_CatE)
  have l6: "length (caps s6) = 4"
    using s4 s5 s6 l3 by (simp add: rematch_caps_length)
  have g3: "digits13 (caps st' ! 3)"
    using a3 nc(3) l6 unfolding D_def by (intro rematch_group_digits13) auto
  from g1 g2 g3 show ?thesis by simp
qed

lemma match_at_HSL:
  assumes "match_at HSLColorPattern s i \<noteq> []"
  shows "length (match_at HSLColorPattern s i) = 4
       \<and> digits13 (match_at HSLColorPattern s i ! 1)
       \<and> digits13 (match_at HSLColorPattern s i ! 2)
       \<and> digits13 (match_at HSLColorPattern s i ! 3)"
proof -
  define st0 where "st0 = \<lparr>rest = drop i s, pos = i, caps = replicate (Suc (ncaps HSLColorPattern)) []\<rparr>"
  have n: "ncaps HSLColorPattern = 3"
    using ncaps_Repeat [of Digit 1 3] by (simp add: HSLColorPattern_def sep_def)
  from assms obtain st' where st': "st' \<in> set (rematch (Cap 0 HSLColorPattern) st0)"
    and m: "match_at HSLColorPattern s i = caps st'"
    by (auto simp: match_at_def st0_def split: list.splits)
  from st' obtain sm where sm: "sm \<in> set (rematch HSLColorPattern st0)"
    and e: "st' = sm\<lparr>caps := (caps sm)[0 := consumed st0 sm]\<rparr>"
    by (auto simp: rematch_Cap_iff)
  have l: "length (caps st0) = 4" by (simp add: st0_def n)
  from HSL_groups [OF sm l] rematch_caps_length [OF sm] l show ?thesis
    by (simp add: m e)
qed

lemma first_match_HSL:
  assumes "first_match HSLColorPattern s is \<noteq> []"
  shows "length (first_match HSLColorPattern s is) = 4
       \<and> digits13 (first_match HSLColorPattern s is ! 1)
       \<and> digits13 (first_match HSLColorPattern s is ! 2)
       \<and> digits13 (first_match HSLColorPattern s is ! 3)"
  using assms
proof (induction "is")
  case Nil
  then show ?case by simp
next
  case (Cons i "is")
  show ?case
  proof (cases "match_at HSLColorPattern s i = []")
    case True
    with Cons show ?thesis by simp
  next
    case False
    then have "first_match HSLColorPattern s (i # is) = match_at HSLColorPattern s i"
      by (simp split: list.splits)
    with match_at_HSL [OF False] show ?thesis by simp
  qed
qed

lemma FindStringSubmatch_HSL:
  assumes "FindStringSubmatch HSLColorPattern s \<noteq> []"
  shows "length (FindStringSubmatch HSLColorPattern s) = 4
       \<and> digits13 (FindStringSubmatch HSLColorPattern s ! 1)
       \<and> digits13 (FindStringSubmatch HSLColorPattern s ! 2)
       \<and> digits13 (FindStringSubmatch HSLColorPattern s ! 3)"
  using assms first_match_HSL unfolding FindStringSubmatch_def by blast

text \<open>The matcher on some strings, with and without the optional parts of the pattern.\<close>

lemma HSLColorPattern_examples:
  "FindStringSubmatch HSLColorPattern ''hsla(10,20%,30%)'' = [''hsla(10,20%,30%)'', ''10'', ''20'', ''30'']"
  "FindStringSubmatch HSLColorPattern ''240 50 50'' = [''240 50 50'', ''240'', ''50'', ''50'']"
  "FindStringSubmatch HSLColorPattern ''7, ,8%  9)'' = [''7, ,8%  9)'', ''7'', ''8'', ''9'']"
  "FindStringSubmatch HSLColorPattern ''hsl(1000, 2, 3)'' = []"
  "FindStringSubmatch HSLColorPattern ''hsl(10,20)'' = []"
  "FindStringSubmatch HSLColorPattern '' 10 20 30'' = []"
  "FindStringSubmatch HSLColorPattern ''10 20 30 '' = []"
  "FindStringSubmatch HSLColorPattern ''hsl(10%, 20, 30)'' = []"
  "FindStringSubmatch HSLColorPattern [] = []"
  by code_simp+

text \<open>
  Claim C8. When \<open>node.Decode\<close> fails, \<open>HSLColorField.UnmarshalYAML\<close> returns that error
  and leaves the field as it was. On a decoded string it succeeds exactly when the string
  matches \<open>HSLColorPattern\<close> and the numbers of the three groups satisfy hue \<open>\<le> 360\<close>,
  saturation \<open>\<le> 100\<close> and lightness \<open>\<le> 100\<close>. On success \<open>Hue\<close>, \<open>Saturation\<close> and
  \<open>Lightness\<close> are those numbers; on every failure the field is unchanged.
\<close>

theorem HSLColorField_UnmarshalYAML_spec:
  "case Decode node of
     Inl err \<Rightarrow> HSLColorField_UnmarshalYAML c node = (c, Some err)
   | Inr value \<Rightarrow>
       (let m = FindStringSubmatch HSLColorPattern value;
            r = HSLColorField_UnmarshalYAML c node
        in ((snd r = None) =
              (m \<noteq> [] \<and> decimal (m ! 1) \<le> 360 \<and> decimal (m ! 2) \<le> 100
                \<and> decimal (m ! 3) \<le> 100))
         \<and> (snd r = None \<longrightarrow>
              unat (Hue (fst r)) = decimal (m ! 1)
            \<and> unat (Saturation (fst r)) = decimal (m ! 2)
            \<and> unat (Lightness (fst r)) = decimal (m ! 3))
         \<and> (snd r \<noteq> None \<longrightarrow> fst r = c))"
proof (cases "Decode node")
  case (Inl err)
  then show ?thesis by (simp add: HSLColorField_UnmarshalYAML_def)
next
  case (Inr v)
  define m where "m = FindStringSubmatch HSLColorPattern v"
  show ?thesis
  proof (cases "m = []")
    case True
    with Inr show ?thesis
      by (simp add: HSLColorField_UnmarshalYAML_def m_def [symmetric])
  next
    case False
    from FindStringSubmatch_HSL [of v] False
    have l: "length m = 4" and d: "digits13 (m ! 1)" "digits13 (m ! 2)" "digits13 (m ! 3)"
      by (simp_all add: m_def)
    have u16: "unat (of_nat n :: 16 word) = n" if "n \<le> 360" for n
      using that by (simp add: unat_of_nat)
    have u8: "unat (of_nat n :: 8 word) = n" if "n \<le> 100" for n
      using that by (simp add: unat_of_nat)
    from Inr False l ParseUint_digits13_16 [OF d(1)] ParseUint_digits13_8 [OF d(2)]
      ParseUint_digits13_8 [OF d(3)]
    show ?thesis
      by (simp add: HSLColorField_UnmarshalYAML_def m_def [symmetric] Let_def
          HSLHueMax_def HSLSaturationMax_def HSLLightnessMax_def u16 u8)
  qed
qed

text \<open>
  The theorem at \<^verbatim>\<open>hsl(240, 50%, 50%)\<close>, which is accepted and sets the three
  components, and at \<^verbatim>\<open>361 50 50\<close>, which matches the pattern but is refused for its
  hue and leaves the field as it was.
\<close>

theorem HSLColorField_UnmarshalYAML_spec_witness:
  "snd (HSLColorField_UnmarshalYAML \<lparr>Hue = 1, Saturation = 2, Lightness = 3\<rparr>
          (Node (Inr ''hsl(240, 50%, 50%)''))) = None
   \<and> unat (Hue (fst (HSLColorField_UnmarshalYAML \<lparr>Hue = 1, Saturation = 2, Lightness = 3\<rparr>
          (Node (Inr ''hsl(240, 50%, 50%)''))))) = 240
   \<and> unat (Saturation (fst (HSLColorField_UnmarshalYAML \<lparr>Hue = 1, Saturation = 2, Lightness = 3\<rparr>
          (Node (Inr ''hsl(240, 50%, 50%)''))))) = 50
   \<and> unat (Lightness (fst (HSLColorField_UnmarshalYAML \<lparr>Hue = 1, Saturation = 2, Lightness = 3\<rparr>
          (Node (Inr ''hsl(240, 50%, 50%)''))))) = 50
   \<and> snd (HSLColorField_UnmarshalYAML \<lparr>Hue = 1, Saturation = 2, Lightness = 3\<rparr>
          (Node (Inr ''361 50 50''))) \<noteq> None
   \<and> fst (HSLColorField_UnmarshalYAML \<lparr>Hue = 1, Saturation = 2, Lightness = 3\<rparr>
          (Node (Inr ''361 50 50''))) = \<lparr>Hue = 1, Saturation = 2, Lightness = 3\<rparr>"
proof -
  have m1: "FindStringSubmatch HSLColorPattern ''hsl(240, 50%, 50%)''
      = [''hsl(240, 50%, 50%)'', ''240'', ''50'', ''50'']"
    by code_simp
  have m2: "FindStringSubmatch HSLColorPattern ''361 50 50'' = [''361 50 50'', ''361'', ''50'', ''50'']"
    by code_simp
  have d: "decimal ''240'' = 240" "decimal ''50'' = 50" "decimal ''361'' = 361"
    by (simp_all add: decimal_def digit_val_def)
  show ?thesis
    using HSLColorField_UnmarshalYAML_spec
        [where node = "Node (Inr ''hsl(240, 50%, 50%)'')"
           and c = "\<lparr>Hue = 1, Saturation = 2, Lightness = 3\<rparr>"]
      HSLColorField_UnmarshalYAML_spec
        [where node = "Node (Inr ''361 50 50'')"
           and c = "\<lparr>Hue = 1, Saturation = 2, Lightness = 3\<rparr>"]
    by (simp add: m1 m2 d Let_def)
qed

subsection \<open>DurationField.UnmarshalYAML\<close>

text \<open>
  The strings \<open>DurationPattern\<close> matches, and the groups of the match: digits followed
  by a unit letter.
\<close>

lemma rematch_unit_iff:
  "st' \<in> set (rematch (Alt (Lit CHR ''s'') (Alt (Lit CHR ''m'') (Alt (Lit CHR ''h'') (Lit CHR ''d'')))) st)
     \<longleftrightarrow> (\<exists>u xs. rest st = u # xs \<and> u \<in> set ''smhd''
            \<and> st' = st\<lparr>rest := xs, pos := Suc (pos st)\<rparr>)"
  by (auto simp: rematch_Alt_iff rematch_Lit_iff)

lemma rematch_Duration_iff:
  assumes "length (caps st) = 3"
  shows "st' \<in> set (rematch DurationPattern st) \<longleftrightarrow>
     pos st = 0 \<and> (\<exists>ds u. ds \<noteq> [] \<and> list_all is_digit ds \<and> rest st = ds @ [u]
        \<and> u \<in> set ''smhd''
        \<and> st' = st\<lparr>rest := [], pos := Suc (length ds), caps := (caps st)[1 := ds, 2 := [u]]\<rparr>)"
  (is "?L \<longleftrightarrow> ?R")
proof
  assume ?L
  then obtain s0 s1 s2 s3 s4 where s0: "s0 \<in> set (rematch Bol st)"
    and s1: "s1 \<in> set (rematch (Plus Digit) s0)"
    and s2: "s2 = s1\<lparr>caps := (caps s1)[1 := consumed s0 s1]\<rparr>"
    and s3: "s3 \<in> set (rematch (Alt (Lit CHR ''s'') (Alt (Lit CHR ''m'') (Alt (Lit CHR ''h'') (Lit CHR ''d'')))) s2)"
    and s4: "s4 = s3\<lparr>caps := (caps s3)[2 := consumed s2 s3]\<rparr>"
    and e: "st' \<in> set (rematch Eol s4)"
    unfolding DurationPattern_def by (auto simp: rematch_Cat_iff rematch_Cap_iff)
  from s0 have p0: "pos st = 0" and e0: "s0 = st" by (simp_all add: rematch_Bol_iff)
  from s1 obtain ds r where ds: "ds \<noteq> []" "list_all is_digit ds" "rest st = ds @ r"
    and e1: "s1 = st\<lparr>rest := r, pos := pos st + length ds\<rparr>"
    unfolding rematch_Plus_Digit_iff e0 by blast
  from s3 obtain u xs where u: "rest s2 = u # xs" "u \<in> set ''smhd''"
    and e3: "s3 = s2\<lparr>rest := xs, pos := Suc (pos s2)\<rparr>"
    unfolding rematch_unit_iff by blast
  from e have e4: "rest s4 = []" "st' = s4" by (simp_all add: rematch_Eol_iff)
  have r: "r = [u]"
    using u(1) e4(1) by (simp add: s4 e3 s2 e1)
  have "st' = st\<lparr>rest := [], pos := Suc (length ds), caps := (caps st)[1 := ds, 2 := [u]]\<rparr>"
    using e4 r ds(3) p0 u(1) by (simp add: s4 e3 s2 e1 e0 consumed_def)
  with p0 ds r u(2) show ?R by blast
next
  assume ?R
  then obtain ds u where p0: "pos st = 0" and ds: "ds \<noteq> []" "list_all is_digit ds"
    "rest st = ds @ [u]" and u: "u \<in> set ''smhd''"
    and e: "st' = st\<lparr>rest := [], pos := Suc (length ds), caps := (caps st)[1 := ds, 2 := [u]]\<rparr>"
    by blast
  define s1 where "s1 = st\<lparr>rest := [u], pos := pos st + length ds\<rparr>"
  define s2 where "s2 = s1\<lparr>caps := (caps s1)[1 := consumed st s1]\<rparr>"
  define s3 where "s3 = s2\<lparr>rest := [], pos := Suc (pos s2)\<rparr>"
  define s4 where "s4 = s3\<lparr>caps := (caps s3)[2 := consumed s2 s3]\<rparr>"
  have "st \<in> set (rematch Bol st)" using p0 by (simp add: rematch_Bol_iff)
  moreover have "s1 \<in> set (rematch (Plus Digit) st)"
    unfolding rematch_Plus_Digit_iff s1_def using ds by blast
  then have "s2 \<in> set (rematch (Cap 1 (Plus Digit)) st)"
    unfolding rematch_Cap_iff s2_def by blast
  moreover have "s3 \<in> set (rematch (Alt (Lit CHR ''s'') (Alt (Lit CHR ''m'') (Alt (Lit CHR ''h'') (Lit CHR ''d'')))) s2)"
    unfolding rematch_unit_iff using u by (simp add: s3_def s2_def s1_def)
  then have "s4 \<in> set (rematch (Cap 2 (Alt (Lit CHR ''s'') (Alt (Lit CHR ''m'') (Alt (Lit CHR ''h'') (Lit CHR ''d''))))) s2)"
    unfolding rematch_Cap_iff s4_def by blast
  moreover have "s4 \<in> set (rematch Eol s4)"
    by (simp add: rematch_Eol_iff s4_def s3_def)
  moreover have "st' = s4"
    using p0 ds by (simp add: e s4_def s3_def s2_def s1_def consumed_def)
  ultimately show ?L
    unfolding DurationPattern_def by (auto simp only: rematch_Cat_iff)
qed

lemma singleton_list_cases:
  assumes "\<And>x. x \<in> set xs \<Longrightarrow> x = a" and "xs \<noteq> []"
  shows "\<exists>ys. xs = a # ys"
  using assms by (cases xs) auto

lemma ncaps_Duration: "ncaps DurationPattern = 2"
  by (simp add: DurationPattern_def)

lemma match_at_Duration:
  "match_at DurationPattern s i =
     (if i = 0 \<and> duration_shape s then [s, butlast s, [last s]] else [])"
proof -
  define st0 where "st0 = \<lparr>rest = drop i s, pos = i, caps = replicate (Suc (ncaps DurationPattern)) []\<rparr>"
  have l: "length (caps st0) = 3" by (simp add: st0_def ncaps_Duration)
  have m: "match_at DurationPattern s i =
      (case rematch (Cap 0 DurationPattern) st0 of [] \<Rightarrow> [] | st # _ \<Rightarrow> caps st)"
    by (simp add: match_at_def st0_def)
  show ?thesis
  proof (cases "i = 0 \<and> duration_shape s")
    case True
    then have i: "i = 0" and sh: "duration_shape s" by simp_all
    define ds where "ds = butlast s"
    define u where "u = last s"
    from sh have s: "s = ds @ [u]" and ds: "ds \<noteq> []" "list_all is_digit ds" and u: "u \<in> set ''smhd''"
      by (simp_all add: duration_shape_def ds_def u_def)
    define X where "X = st0\<lparr>rest := [], pos := Suc (length ds), caps := [s, ds, [u]]\<rparr>"
    have mem: "x \<in> set (rematch (Cap 0 DurationPattern) st0) \<longleftrightarrow> x = X" for x
      unfolding rematch_Cap_iff Bex_def rematch_Duration_iff [OF l]
      using ds s u by (auto simp: st0_def i X_def consumed_def ncaps_Duration numeral_3_eq_3)
    then have "rematch (Cap 0 DurationPattern) st0 \<noteq> []"
      by (metis empty_iff empty_set)
    with mem obtain ys where "rematch (Cap 0 DurationPattern) st0 = X # ys"
      using singleton_list_cases [of "rematch (Cap 0 DurationPattern) st0" X] by blast
    then show ?thesis
      using True m by (simp add: X_def ds_def u_def)
  next
    case False
    have "rematch DurationPattern st0 = []"
    proof (rule ccontr)
      assume "rematch DurationPattern st0 \<noteq> []"
      then obtain x where "x \<in> set (rematch DurationPattern st0)"
        by (cases "rematch DurationPattern st0") auto
      then obtain ds u where "pos st0 = 0" "ds \<noteq> []" "list_all is_digit ds"
        "rest st0 = ds @ [u]" "u \<in> set ''smhd''"
        unfolding rematch_Duration_iff [OF l] by blast
      then have "i = 0 \<and> duration_shape s"
        by (simp add: st0_def duration_shape_def)
      with False show False by simp
    qed
    then have "rematch (Cap 0 DurationPattern) st0 = []"
      by (simp add: rematch.simps(10))
    with False show ?thesis by (simp add: m)
  qed
qed

lemma first_match_Duration_tail:
  "0 \<notin> set is \<Longrightarrow> first_match DurationPattern s is = []"
  by (induction "is") (auto simp: match_at_Duration)

lemma FindStringSubmatch_Duration:
  "FindStringSubmatch DurationPattern s =
     (if duration_shape s then [s, butlast s, [last s]] else [])"
proof -
  have e: "[0..<Suc (length s)] = 0 # [Suc 0..<Suc (length s)]"
    by (rule upt_conv_Cons) simp
  have t: "first_match DurationPattern s [Suc 0..<Suc (length s)] = []"
    by (rule first_match_Duration_tail) auto
  show ?thesis
    unfolding FindStringSubmatch_def e by (auto simp: match_at_Duration t simp del: upt_Suc)
qed

text \<open>The matcher on some strings, checked against the characterisation.\<close>

lemma DurationPattern_examples:
  "FindStringSubmatch DurationPattern ''30m'' = [''30m'', ''30'', ''m'']"
  "FindStringSubmatch DurationPattern ''007d'' = [''007d'', ''007'', ''d'']"
  "FindStringSubmatch DurationPattern ''30'' = []"
  "FindStringSubmatch DurationPattern ''h'' = []"
  "FindStringSubmatch DurationPattern ''-3s'' = []"
  "FindStringSubmatch DurationPattern ''3ms'' = []"
  "FindStringSubmatch DurationPattern ''1.5h'' = []"
  by code_simp+

lemma DurationField_UnmarshalYAML_shape:
  assumes "Decode node = Inr s"
  shows "DurationField_UnmarshalYAML d node =
     (if duration_shape s \<and> decimal (butlast s) < 2 ^ 63
      then (word_of_nat (decimal (butlast s)) * word_of_nat (unit_nanos (last s)), None)
      else (d, Some (if duration_shape s then NumError ''Atoi'' (butlast s) ErrRange
                     else InvalidDurationFormat s)))"
proof (cases "duration_shape s")
  case False
  with assms show ?thesis
    by (simp add: DurationField_UnmarshalYAML_def FindStringSubmatch_Duration)
next
  case True
  then have ds: "butlast s \<noteq> []" "list_all is_digit (butlast s)" and u: "last s \<in> set ''smhd''"
    by (simp_all add: duration_shape_def)
  have m: "FindStringSubmatch DurationPattern s = [s, butlast s, [last s]]"
    using True by (simp add: FindStringSubmatch_Duration)
  show ?thesis
    using assms True u Atoi_digits [OF ds]
    by (auto simp: DurationField_UnmarshalYAML_def m Let_def unit_nanos_def
        Second_def Minute_def Hour_def)
qed

lemma sint_word_of_nat_mult:
  assumes "a * b < 2 ^ 63"
  shows "sint (word_of_nat a * word_of_nat b :: 64 word) = int (a * b)"
proof -
  have "word_of_nat a * word_of_nat b = (word_of_nat (a * b) :: 64 word)" by simp
  moreover have "int (a * b) < int (2 ^ 63)"
    using assms by (simp only: of_nat_less_iff)
  then have "int (a * b) < 2 ^ 63" by simp
  moreover have "- (2 ^ 63) \<le> int (a * b)"
  proof -
    have "- (2 ^ 63) \<le> (0::int)" by simp
    also have "0 \<le> int (a * b)" by simp
    finally show ?thesis .
  qed
  ultimately have "signed_take_bit 63 (int (a * b)) = int (a * b)"
    by (intro signed_take_bit_int_eq_self)
  then show ?thesis
    using \<open>word_of_nat a * word_of_nat b = (word_of_nat (a * b) :: 64 word)\<close>
    by (simp only: signed_of_nat) simp
qed

lemma duration_shape_iff:
  "duration_shape s \<longleftrightarrow>
     (\<exists>ds u. s = ds @ [u] \<and> ds \<noteq> [] \<and> list_all is_digit ds \<and> u \<in> set ''smhd'')"
proof
  assume "duration_shape s"
  then have "s = butlast s @ [last s] \<and> butlast s \<noteq> [] \<and> list_all is_digit (butlast s)
     \<and> last s \<in> set ''smhd''"
    by (simp add: duration_shape_def)
  then show "\<exists>ds u. s = ds @ [u] \<and> ds \<noteq> [] \<and> list_all is_digit ds \<and> u \<in> set ''smhd''"
    by blast
next
  assume "\<exists>ds u. s = ds @ [u] \<and> ds \<noteq> [] \<and> list_all is_digit ds \<and> u \<in> set ''smhd''"
  then show "duration_shape s"
    by (auto simp: duration_shape_def)
qed

text \<open>
  Claim C9, as amended. When \<open>node.Decode\<close> fails, \<open>DurationField.UnmarshalYAML\<close> returns
  that error and leaves the field as it was. On a decoded string it succeeds exactly when
  the string is one or more decimal digits followed by one of the letters s, m, h, d and
  the number the digits denote is below \<open>2^63\<close> (zero and leading zeros are accepted; a
  number that does not fit Go's \<open>int\<close> is refused by \<open>Atoi\<close>). On success, when the number
  times the nanoseconds of the unit is below \<open>2^63\<close>, the field is that many seconds,
  minutes, hours or days of 24 hours. On every failure the field is unchanged.
\<close>

theorem DurationField_UnmarshalYAML_spec:
  "case Decode node of
     Inl err \<Rightarrow> DurationField_UnmarshalYAML d node = (d, Some err)
   | Inr s \<Rightarrow>
       (let r = DurationField_UnmarshalYAML d node
        in ((snd r = None) =
              (\<exists>ds u. s = ds @ [u] \<and> ds \<noteq> [] \<and> list_all is_digit ds \<and> u \<in> set ''smhd''
                 \<and> decimal ds < 2 ^ 63))
         \<and> (\<forall>ds u. s = ds @ [u] \<and> snd r = None \<and> decimal ds * unit_nanos u < 2 ^ 63 \<longrightarrow>
               sint (fst r) = int (decimal ds * unit_nanos u))
         \<and> (snd r \<noteq> None \<longrightarrow> fst r = d))"
proof (cases "Decode node")
  case (Inl err)
  then show ?thesis by (simp add: DurationField_UnmarshalYAML_def)
next
  case (Inr s)
  note sh = DurationField_UnmarshalYAML_shape [OF Inr, of d]
  have a: "(snd (DurationField_UnmarshalYAML d node) = None) =
      (\<exists>ds u. s = ds @ [u] \<and> ds \<noteq> [] \<and> list_all is_digit ds \<and> u \<in> set ''smhd''
                 \<and> decimal ds < 2 ^ 63)"
  proof -
    have "(snd (DurationField_UnmarshalYAML d node) = None) =
        (duration_shape s \<and> decimal (butlast s) < 2 ^ 63)"
      by (simp add: sh)
    also have "\<dots> = (\<exists>ds u. s = ds @ [u] \<and> ds \<noteq> [] \<and> list_all is_digit ds \<and> u \<in> set ''smhd''
                 \<and> decimal ds < 2 ^ 63)" (is "?L = ?R")
    proof
      assume l: ?L
      then obtain ds u where e: "s = ds @ [u]" "ds \<noteq> []" "list_all is_digit ds" "u \<in> set ''smhd''"
        unfolding duration_shape_iff by blast
      from e(1) have "butlast s = ds" by simp
      with l have "decimal ds < 2 ^ 63" by simp
      with e have "s = ds @ [u] \<and> ds \<noteq> [] \<and> list_all is_digit ds \<and> u \<in> set ''smhd''
                 \<and> decimal ds < 2 ^ 63" by simp
      then show ?R by (intro exI)
    next
      assume ?R
      then obtain ds u where e: "s = ds @ [u]" "ds \<noteq> []" "list_all is_digit ds" "u \<in> set ''smhd''"
        and e5: "decimal ds < 2 ^ 63" by (elim exE conjE)
      from e(1) have "butlast s = ds" by simp
      moreover from e have "duration_shape s" unfolding duration_shape_iff by (intro exI conjI)
      ultimately show ?L using e5 by simp
    qed
    finally show ?thesis .
  qed
  have b: "sint (fst (DurationField_UnmarshalYAML d node)) = int (decimal ds * unit_nanos u)"
    if "s = ds @ [u]" "snd (DurationField_UnmarshalYAML d node) = None"
      "decimal ds * unit_nanos u < 2 ^ 63" for ds u
  proof -
    from that(2) have "duration_shape s \<and> decimal (butlast s) < 2 ^ 63"
      by (simp add: sh split: if_splits)
    with that(1) have "fst (DurationField_UnmarshalYAML d node) =
        word_of_nat (decimal ds) * word_of_nat (unit_nanos u)"
      by (simp add: sh)
    with sint_word_of_nat_mult [OF that(3)] show ?thesis by simp
  qed
  have c: "snd (DurationField_UnmarshalYAML d node) \<noteq> None \<longrightarrow>
      fst (DurationField_UnmarshalYAML d node) = d"
    by (simp add: sh)
  define r where "r = DurationField_UnmarshalYAML d node"
  have b': "\<forall>ds u. s = ds @ [u] \<and> snd r = None \<and> decimal ds * unit_nanos u < 2 ^ 63 \<longrightarrow>
               sint (fst r) = int (decimal ds * unit_nanos u)"
    using b unfolding r_def by (intro allI impI) (elim conjE)
  from a b' c show ?thesis
    unfolding Inr sum.case Let_def r_def by (intro conjI)
qed

text \<open>
  The theorem at \<^verbatim>\<open>15m\<close>, which sets the field to 900000000000 nanoseconds, and at
  \<^verbatim>\<open>15\<close>, which has no unit, is refused and leaves the field as it was.
\<close>

theorem DurationField_UnmarshalYAML_spec_witness:
  "snd (DurationField_UnmarshalYAML 7 (Node (Inr ''15m''))) = None
   \<and> sint (fst (DurationField_UnmarshalYAML 7 (Node (Inr ''15m'')))) = 900000000000
   \<and> snd (DurationField_UnmarshalYAML 7 (Node (Inr ''15''))) \<noteq> None
   \<and> fst (DurationField_UnmarshalYAML 7 (Node (Inr ''15''))) = 7"
proof -
  define r where "r = DurationField_UnmarshalYAML 7 (Node (Inr ''15m''))"
  define r' where "r' = DurationField_UnmarshalYAML 7 (Node (Inr ''15''))"
  have d: "decimal ''15'' = 15"
    by (simp add: decimal_def digit_val_def)
  have t: "((snd r = None) =
              (\<exists>ds u. ''15m'' = ds @ [u] \<and> ds \<noteq> [] \<and> list_all is_digit ds \<and> u \<in> set ''smhd''
                 \<and> decimal ds < 2 ^ 63))
         \<and> (\<forall>ds u. ''15m'' = ds @ [u] \<and> snd r = None \<and> decimal ds * unit_nanos u < 2 ^ 63 \<longrightarrow>
               sint (fst r) = int (decimal ds * unit_nanos u))"
    using DurationField_UnmarshalYAML_spec [where node = "Node (Inr ''15m'')" and d = 7]
    by (simp add: Let_def r_def)
  have t': "((snd r' = None) =
              (\<exists>ds u. ''15'' = ds @ [u] \<and> ds \<noteq> [] \<and> list_all is_digit ds \<and> u \<in> set ''smhd''
                 \<and> decimal ds < 2 ^ 63))
         \<and> (snd r' \<noteq> None \<longrightarrow> fst r' = 7)"
    using DurationField_UnmarshalYAML_spec [where node = "Node (Inr ''15'')" and d = 7]
    by (simp add: Let_def r'_def)
  have "''15m'' = ''15'' @ [CHR ''m''] \<and> ''15'' \<noteq> [] \<and> list_all is_digit ''15''
      \<and> CHR ''m'' \<in> set ''smhd'' \<and> decimal ''15'' < 2 ^ 63"
    by (simp add: d is_digit_def)
  then have "\<exists>ds u. ''15m'' = ds @ [u] \<and> ds \<noteq> [] \<and> list_all is_digit ds \<and> u \<in> set ''smhd''
                 \<and> decimal ds < 2 ^ 63"
    by (intro exI)
  with t have ok: "snd r = None" by simp
  have "''15m'' = ''15'' @ [CHR ''m''] \<and> snd r = None \<and> decimal ''15'' * unit_nanos CHR ''m'' < 2 ^ 63"
    using ok by (simp add: d unit_nanos_def)
  with t have v: "sint (fst r) = int (decimal ''15'' * unit_nanos CHR ''m'')" by blast
  have "\<not> (\<exists>ds u. ''15'' = ds @ [u] \<and> ds \<noteq> [] \<and> list_all is_digit ds \<and> u \<in> set ''smhd''
                 \<and> decimal ds < 2 ^ 63)"
    by (auto simp: Cons_eq_append_conv)
  with t' have bad: "snd r' \<noteq> None" "fst r' = 7" by simp_all
  from ok v bad show ?thesis
    unfolding r_def r'_def by (simp add: d unit_nanos_def)
qed

text \<open>
  The claim as first stated (the accepted strings are exactly a positive integer followed
  by a unit) fails both ways: \<^verbatim>\<open>9223372036854775808s\<close> is a positive integer and a
  unit, and is refused, since \<open>Atoi\<close> reports a range error for \<open>2^63\<close>; and
  \<^verbatim>\<open>0s\<close> is accepted although zero is not positive.
\<close>

theorem DurationField_UnmarshalYAML_counterexample:
  "DurationField_UnmarshalYAML 7 (Node (Inr ''9223372036854775808s''))
     = (7, Some (NumError ''Atoi'' ''9223372036854775808'' ErrRange))
   \<and> DurationField_UnmarshalYAML 7 (Node (Inr ''0s'')) = (0, None)"
proof -
  have a: "Decode (Node (Inr ''9223372036854775808s'')) = Inr ''9223372036854775808s''"
    and b: "Decode (Node (Inr ''0s'')) = Inr ''0s''"
    by simp_all
  show ?thesis
    unfolding DurationField_UnmarshalYAML_shape [OF a] DurationField_UnmarshalYAML_shape [OF b]
    by (simp add: duration_shape_def is_digit_def decimal_def digit_val_def)
qed

subsection \<open>FetchStocksDataFromYahoo\<close>

text \<open>
  The loop on aligned sequences without a missing quote entry, and the function in closed
  form when the executor reports no batch error.
\<close>

lemma stock_step_ok:
  assumes "i < length errs" "i < length stockRequests"
    and "\<not> unit_failed responses errs i \<longrightarrow> has_quote (responses ! i)"
  shows "stock_step ops stockRequests responses errs i (stocks, failed) =
     Inr (if unit_failed responses errs i then (stocks, Suc failed)
          else (stocks @ [stock_of ops (stockRequests ! i) (responses ! i)], failed))"
  using assms
  by (auto simp: stock_step_def unit_failed_def has_quote_def stock_of_def Let_def
      split: list.splits)

lemma stocks_loop_ok:
  assumes "\<forall>i \<in> set is. i < length errs \<and> i < length stockRequests
             \<and> (\<not> unit_failed responses errs i \<longrightarrow> has_quote (responses ! i))"
  shows "stocks_loop ops stockRequests responses errs is (stocks, failed) =
     Inr (stocks @ map (\<lambda>i. stock_of ops (stockRequests ! i) (responses ! i))
                     (filter (\<lambda>i. \<not> unit_failed responses errs i) is),
          failed + length (filter (unit_failed responses errs) is))"
  using assms
proof (induction "is" arbitrary: stocks failed)
  case Nil
  then show ?case by simp
next
  case (Cons i "is")
  then have "stock_step ops stockRequests responses errs i (stocks, failed) =
     Inr (if unit_failed responses errs i then (stocks, Suc failed)
          else (stocks @ [stock_of ops (stockRequests ! i) (responses ! i)], failed))"
    by (intro stock_step_ok) auto
  moreover have "\<forall>i \<in> set is. i < length errs \<and> i < length stockRequests
             \<and> (\<not> unit_failed responses errs i \<longrightarrow> has_quote (responses ! i))"
    using Cons.prems by simp
  ultimately show ?case
    using Cons.IH by simp
qed

lemma Fetch_closed_form:
  assumes "exec (map (\<lambda>r. chart_url (req_Symbol r)) stockRequests) = (responses, errs, None)"
    and "length responses = length stockRequests"
    and "length errs = length stockRequests"
    and "\<forall>i < length stockRequests.
           \<not> unit_failed responses errs i \<longrightarrow> has_quote (responses ! i)"
  shows "FetchStocksDataFromYahoo ops exec stockRequests =
     (let usable = filter (\<lambda>i. \<not> unit_failed responses errs i) [0..<length stockRequests];
          stocks = map (\<lambda>i. stock_of ops (stockRequests ! i) (responses ! i)) usable;
          failed = length (filter (unit_failed responses errs) [0..<length stockRequests])
      in if usable = [] then Inr ([], Some ErrNoContent)
         else if failed > 0 then Inr (stocks, Some (WrapFailedCount ErrPartialContent failed))
         else Inr (stocks, None))"
proof -
  have "\<forall>i \<in> set [0..<length responses]. i < length errs \<and> i < length stockRequests
             \<and> (\<not> unit_failed responses errs i \<longrightarrow> has_quote (responses ! i))"
    using assms(2-4) by simp
  from stocks_loop_ok [OF this, of ops "[]" 0] assms(1,2) show ?thesis
    by (simp add: FetchStocksDataFromYahoo_def Let_def)
qed

lemma filter_split_length:
  "length (filter (\<lambda>i. \<not> P i) xs) = length xs - length (filter P xs)"
  using sum_length_filter_compl [of P xs] by simp

text \<open>The definitions that the concrete cases unfold.\<close>

lemmas fixture_defs = int_ops_def no_data_def quoted_def unquoted_def request_def

lemmas stock_defs = unit_failed_def has_quote_def stock_of_def build_stock_def stockChartDays_def

text \<open>
  Why the statements below ask for a quote entry: a response that has a chart result
  without quote entry makes the loop read \<open>Quote[0]\<close> of an empty slice, and the
  function panics.
\<close>

lemma FetchStocks_missing_quote_panics:
  "FetchStocksDataFromYahoo int_ops (\<lambda>requests. ([unquoted ''A'' 10], [None], None))
     [request ''A''] = Inl IndexOutOfRange"
  by (simp add: FetchStocksDataFromYahoo_def stock_step_def fixture_defs)

text \<open>
  Claim C3, as amended. On aligned result and error sequences (one response, one error and
  one request per unit) in which every response with a chart result has a quote entry,
  the loop keeps exactly the units \<open>i\<close> for which \<open>errs[i]\<close> is nil and the response has
  at least one chart result, in their order, and counts all the others as failed.
\<close>

theorem stocks_loop_keeps_usable:
  assumes "length responses = length stockRequests"
    and "length errs = length stockRequests"
    and "\<forall>i < length stockRequests.
           \<not> unit_failed responses errs i \<longrightarrow> has_quote (responses ! i)"
  shows "stocks_loop ops stockRequests responses errs [0..<length responses] ([], 0) =
     Inr (map (\<lambda>i. stock_of ops (stockRequests ! i) (responses ! i))
            (filter (\<lambda>i. errs ! i = None \<and> Result (Chart (responses ! i)) \<noteq> [])
               [0..<length responses]),
          length (filter (\<lambda>i. errs ! i \<noteq> None \<or> Result (Chart (responses ! i)) = [])
               [0..<length responses]))"
proof -
  have "\<forall>i \<in> set [0..<length responses]. i < length errs \<and> i < length stockRequests
             \<and> (\<not> unit_failed responses errs i \<longrightarrow> has_quote (responses ! i))"
    using assms by simp
  from stocks_loop_ok [OF this, of ops "[]" 0] show ?thesis
    by (simp add: unit_failed_def [abs_def])
qed

text \<open>
  The theorem on five units of which unit 1 has an error and unit 3 a response without
  chart result: the stocks of units 0, 2 and 4 are kept, in that order, and two units are
  counted as failed.
\<close>

theorem stocks_loop_keeps_usable_witness:
  "stocks_loop int_ops
     [request ''A'', request ''B'', request ''C'', request ''D'', request ''E'']
     [quoted ''A'' 10 [9, 10], no_data, quoted ''C'' 30 [], no_data, quoted ''E'' 50 [40, 0, 50]]
     [None, Some (OtherError ''timeout''), None, None, None]
     [0..<5] ([], 0)
   = Inr ([\<lparr>Name = ''A'', Symbol = ''A'', Price = 10, PercentChange = 1, SvgChartPoints = ''''\<rparr>,
           \<lparr>Name = ''C'', Symbol = ''C'', Price = 30, PercentChange = 0, SvgChartPoints = ''''\<rparr>,
           \<lparr>Name = ''E'', Symbol = ''E'', Price = 50, PercentChange = 0, SvgChartPoints = ''''\<rparr>],
          2)"
  using stocks_loop_keeps_usable
    [where ops = int_ops
       and stockRequests = "[request ''A'', request ''B'', request ''C'', request ''D'', request ''E'']"
       and responses = "[quoted ''A'' 10 [9, 10], no_data, quoted ''C'' 30 [], no_data,
                         quoted ''E'' 50 [40, 0, 50]]"
       and errs = "[None, Some (OtherError ''timeout''), None, None, None]"]
  by (simp add: fixture_defs stock_defs All_less_Suc eval_nat_numeral)

text \<open>
  The claim as first stated (a result is kept exactly when its error is nil) fails on a
  unit whose error is nil and whose response has no chart result: nothing is kept and the
  unit is counted as failed.
\<close>

theorem stocks_loop_keeps_usable_counterexample:
  "[None :: feed_error option] ! 0 = None
   \<and> stocks_loop int_ops [request ''A''] [no_data] [None] [0..<1] ([], 0) = Inr ([], 1)"
  by (simp add: fixture_defs stock_step_def)

text \<open>
  Claim C1, as amended. Let the executor return no batch error and aligned sequences for a
  batch of \<open>N\<close> stock requests, let \<open>k\<close> be the number of units counted as failed (the
  error of the unit is not nil, or its decoded response has no chart result), with
  \<open>0 < k < N\<close>, and let every other response have a quote entry in its first chart result.
  Then \<open>FetchStocksDataFromYahoo\<close> returns the usable results together with an error
  wrapping \<open>ErrPartialContent\<close> whose failure count is \<open>k\<close>; the usable results have
  length \<open>N - k\<close> and are the stocks of the units not counted as failed, in the order of
  the requests.
\<close>

theorem FetchStocks_partial:
  assumes "exec (map (\<lambda>r. chart_url (req_Symbol r)) stockRequests) = (responses, errs, None)"
    and "length responses = length stockRequests"
    and "length errs = length stockRequests"
    and "\<forall>i < length stockRequests.
           \<not> unit_failed responses errs i \<longrightarrow> has_quote (responses ! i)"
    and "k = length (filter (unit_failed responses errs) [0..<length stockRequests])"
    and "0 < k" and "k < length stockRequests"
  shows "\<exists>stocks.
       FetchStocksDataFromYahoo ops exec stockRequests
         = Inr (stocks, Some (WrapFailedCount ErrPartialContent k))
     \<and> length stocks = length stockRequests - k
     \<and> stocks = map (\<lambda>i. stock_of ops (stockRequests ! i) (responses ! i))
                  (filter (\<lambda>i. \<not> unit_failed responses errs i) [0..<length stockRequests])"
proof -
  let ?n = "length stockRequests"
  let ?usable = "filter (\<lambda>i. \<not> unit_failed responses errs i) [0..<?n]"
  have l: "length ?usable = ?n - k"
    using assms(5) filter_split_length [of "unit_failed responses errs" "[0..<?n]"] by simp
  with assms(7) have "?usable \<noteq> []" by auto
  with Fetch_closed_form [where exec = exec and ops = ops, OF assms(1-4)] assms(5,6) l show ?thesis
    by (simp add: Let_def)
qed

text \<open>
  The theorem on the same five units: three stocks, in the order of the requests, and an
  error wrapping \<open>ErrPartialContent\<close> with the count 2.
\<close>

theorem FetchStocks_partial_witness:
  "FetchStocksDataFromYahoo int_ops
     (\<lambda>requests.
        ([quoted ''A'' 10 [9, 10], no_data, quoted ''C'' 30 [], no_data, quoted ''E'' 50 [40, 0, 50]],
         [None, Some (OtherError ''timeout''), None, None, None], None))
     [request ''A'', request ''B'', request ''C'', request ''D'', request ''E'']
   = Inr ([\<lparr>Name = ''A'', Symbol = ''A'', Price = 10, PercentChange = 1, SvgChartPoints = ''''\<rparr>,
           \<lparr>Name = ''C'', Symbol = ''C'', Price = 30, PercentChange = 0, SvgChartPoints = ''''\<rparr>,
           \<lparr>Name = ''E'', Symbol = ''E'', Price = 50, PercentChange = 0, SvgChartPoints = ''''\<rparr>],
          Some (WrapFailedCount ErrPartialContent 2))"
  using FetchStocks_partial
    [where ops = int_ops and k = 2
       and exec = "\<lambda>requests.
        ([quoted ''A'' 10 [9, 10], no_data, quoted ''C'' 30 [], no_data, quoted ''E'' 50 [40, 0, 50]],
         [None, Some (OtherError ''timeout''), None, None, None], None)"
       and stockRequests = "[request ''A'', request ''B'', request ''C'', request ''D'', request ''E'']"
       and responses = "[quoted ''A'' 10 [9, 10], no_data, quoted ''C'' 30 [], no_data,
                         quoted ''E'' 50 [40, 0, 50]]"
       and errs = "[None, Some (OtherError ''timeout''), None, None, None]"]
  by (simp add: fixture_defs stock_defs All_less_Suc eval_nat_numeral)

text \<open>
  The claim as first stated, with the failed units those whose error is not nil, fails on
  three units of which one has an error (\<open>k = 1\<close>) and another a response without chart
  result: the failure count is 2 and one result is returned, not \<open>N - k = 2\<close>.
\<close>

theorem FetchStocks_partial_counterexample:
  "length (filter (\<lambda>e. e \<noteq> None) [Some (OtherError ''timeout''), None, None]) = 1
   \<and> FetchStocksDataFromYahoo int_ops
       (\<lambda>requests. ([no_data, quoted ''B'' 20 [], no_data],
                     [Some (OtherError ''timeout''), None, None], None))
       [request ''A'', request ''B'', request ''C'']
     = Inr ([\<lparr>Name = ''B'', Symbol = ''B'', Price = 20, PercentChange = 0, SvgChartPoints = ''''\<rparr>],
            Some (WrapFailedCount ErrPartialContent 2))"
  by (simp add: FetchStocksDataFromYahoo_def stock_step_def fixture_defs build_stock_def
      stockChartDays_def eval_nat_numeral)

text \<open>
  Claim C2. If every unit of a non-empty batch fails (its error is not nil, or its
  response has no chart result), \<open>FetchStocksDataFromYahoo\<close> returns no usable results and
  an error that is \<open>ErrNoContent\<close> or wraps it, whether or not the executor also reports
  a batch error.
\<close>

theorem FetchStocks_all_failed:
  assumes "exec (map (\<lambda>r. chart_url (req_Symbol r)) stockRequests) = (responses, errs, berr)"
    and "length responses = length stockRequests"
    and "length errs = length stockRequests"
    and "0 < length stockRequests"
    and "\<forall>i < length stockRequests. unit_failed responses errs i"
  shows "FetchStocksDataFromYahoo ops exec stockRequests
           = Inr ([], Some (case berr of None \<Rightarrow> ErrNoContent
                                        | Some b \<Rightarrow> WrapCause ErrNoContent b))
       \<and> errors_Is (case berr of None \<Rightarrow> ErrNoContent | Some b \<Rightarrow> WrapCause ErrNoContent b)
            ErrNoContent"
proof (cases berr)
  case (Some b)
  with assms(1) show ?thesis
    by (simp add: FetchStocksDataFromYahoo_def)
next
  case None
  have q: "\<forall>i < length stockRequests.
           \<not> unit_failed responses errs i \<longrightarrow> has_quote (responses ! i)"
    using assms(5) by simp
  have "filter (\<lambda>i. \<not> unit_failed responses errs i) [0..<length stockRequests] = []"
    using assms(5) by (simp add: filter_empty_conv)
  with Fetch_closed_form [where exec = exec and ops = ops, OF assms(1) [unfolded None] assms(2,3) q]
  show ?thesis
    by (simp add: Let_def None)
qed

text \<open>
  The theorem on two units, one with an error and one with a response without chart
  result.
\<close>

theorem FetchStocks_all_failed_witness:
  "FetchStocksDataFromYahoo int_ops
     (\<lambda>requests. ([no_data, no_data], [Some (OtherError ''timeout''), None], None))
     [request ''A'', request ''B'']
   = Inr ([], Some ErrNoContent)
   \<and> errors_Is ErrNoContent ErrNoContent"
  using FetchStocks_all_failed
    [where ops = int_ops and berr = None
       and exec = "\<lambda>requests. ([no_data, no_data], [Some (OtherError ''timeout''), None], None)"
       and stockRequests = "[request ''A'', request ''B'']"
       and responses = "[no_data, no_data]"
       and errs = "[Some (OtherError ''timeout''), None]"]
  by (simp add: fixture_defs stock_defs All_less_Suc eval_nat_numeral)

text \<open>
  Claim C4, as amended. If the executor returns no batch error and aligned sequences for a
  non-empty batch of \<open>N\<close> requests, no unit is counted as failed (every error is nil and
  every decoded response has a chart result) and every response has a quote entry in its
  first chart result, then \<open>FetchStocksDataFromYahoo\<close> returns a nil error and \<open>N\<close> usable
  results, one for each request, in the order of the requests.
\<close>

theorem FetchStocks_all_succeeded:
  assumes "exec (map (\<lambda>r. chart_url (req_Symbol r)) stockRequests) = (responses, errs, None)"
    and "length responses = length stockRequests"
    and "length errs = length stockRequests"
    and "0 < length stockRequests"
    and "\<forall>i < length stockRequests. \<not> unit_failed responses errs i \<and> has_quote (responses ! i)"
  shows "\<exists>stocks.
       FetchStocksDataFromYahoo ops exec stockRequests = Inr (stocks, None)
     \<and> length stocks = length stockRequests
     \<and> stocks = map (\<lambda>i. stock_of ops (stockRequests ! i) (responses ! i))
                  [0..<length stockRequests]"
proof -
  let ?n = "length stockRequests"
  have q: "\<forall>i < ?n. \<not> unit_failed responses errs i \<longrightarrow> has_quote (responses ! i)"
    using assms(5) by simp
  have u: "filter (\<lambda>i. \<not> unit_failed responses errs i) [0..<?n] = [0..<?n]"
    using assms(5) by (simp add: filter_id_conv)
  have f: "filter (unit_failed responses errs) [0..<?n] = []"
    using assms(5) by (simp add: filter_empty_conv)
  from Fetch_closed_form [where exec = exec and ops = ops, OF assms(1-3) q] assms(4) show ?thesis
    by (simp add: Let_def u f)
qed

text \<open>The theorem on two units that both succeed.\<close>

theorem FetchStocks_all_succeeded_witness:
  "FetchStocksDataFromYahoo int_ops
     (\<lambda>requests. ([quoted ''A'' 10 [9, 10], quoted ''C'' 30 []], [None, None], None))
     [request ''A'', request ''C'']
   = Inr ([\<lparr>Name = ''A'', Symbol = ''A'', Price = 10, PercentChange = 1, SvgChartPoints = ''''\<rparr>,
           \<lparr>Name = ''C'', Symbol = ''C'', Price = 30, PercentChange = 0, SvgChartPoints = ''''\<rparr>],
          None)"
  using FetchStocks_all_succeeded
    [where ops = int_ops
       and exec = "\<lambda>requests. ([quoted ''A'' 10 [9, 10], quoted ''C'' 30 []], [None, None], None)"
       and stockRequests = "[request ''A'', request ''C'']"
       and responses = "[quoted ''A'' 10 [9, 10], quoted ''C'' 30 []]"
       and errs = "[None, None]"]
  by (simp add: fixture_defs stock_defs All_less_Suc eval_nat_numeral)

text \<open>
  The claim as first stated, with the failed units those whose error is not nil, fails on
  a single unit whose error is nil and whose response has no chart result: the function
  returns no result and \<open>ErrNoContent\<close>.
\<close>

theorem FetchStocks_all_succeeded_counterexample:
  "length (filter (\<lambda>e. e \<noteq> None) [None :: feed_error option]) = 0
   \<and> FetchStocksDataFromYahoo int_ops (\<lambda>requests. ([no_data], [None], None)) [request ''A'']
     = Inr ([], Some ErrNoContent)"
  by (simp add: FetchStocksDataFromYahoo_def stock_step_def fixture_defs)

subsection \<open>The executor\<close>

text \<open>
  Whatever the order of completion, the slots end up holding the outcome of their own
  unit.
\<close>

lemma run_unit_slots:
  "run_unit task zero data i (results, errs) =
     (if i < length data
      then (results[i := unit_result task zero (data ! i)], errs[i := unit_error task (data ! i)])
      else (results, errs))"
  by (simp add: run_unit_def unit_result_def unit_error_def split: sum.splits)

lemma fold_run_unit:
  assumes "length results = length data" and "length errs = length data"
  shows "fold (run_unit task zero data) completion (results, errs) =
     (map (\<lambda>i. if i \<in> set completion then unit_result task zero (data ! i) else results ! i)
          [0..<length data],
      map (\<lambda>i. if i \<in> set completion then unit_error task (data ! i) else errs ! i)
          [0..<length data])"
  using assms
proof (induction completion arbitrary: results errs)
  case Nil
  have "map ((!) results) [0..<length results] = results"
    and "map ((!) errs) [0..<length errs] = errs"
    by (rule map_nth)+
  with Nil show ?case by simp
next
  case (Cons j js)
  show ?case
  proof (cases "j < length data")
    case True
    have "fold (run_unit task zero data) (j # js) (results, errs) =
        fold (run_unit task zero data) js
          (results[j := unit_result task zero (data ! j)], errs[j := unit_error task (data ! j)])"
      using True by (simp add: run_unit_slots)
    also have "\<dots> =
       (map (\<lambda>i. if i \<in> set js then unit_result task zero (data ! i)
                 else results[j := unit_result task zero (data ! j)] ! i) [0..<length data],
        map (\<lambda>i. if i \<in> set js then unit_error task (data ! i)
                 else errs[j := unit_error task (data ! j)] ! i) [0..<length data])"
      using Cons.prems by (intro Cons.IH) simp_all
    also have "\<dots> =
       (map (\<lambda>i. if i \<in> set (j # js) then unit_result task zero (data ! i) else results ! i)
          [0..<length data],
        map (\<lambda>i. if i \<in> set (j # js) then unit_error task (data ! i) else errs ! i)
          [0..<length data])"
      using Cons.prems by (auto simp: nth_list_update)
    finally show ?thesis .
  next
    case False
    have "fold (run_unit task zero data) (j # js) (results, errs) =
        fold (run_unit task zero data) js (results, errs)"
      using False by (simp add: run_unit_slots)
    also have "\<dots> =
       (map (\<lambda>i. if i \<in> set js then unit_result task zero (data ! i) else results ! i)
          [0..<length data],
        map (\<lambda>i. if i \<in> set js then unit_error task (data ! i) else errs ! i)
          [0..<length data])"
      using Cons.prems by (intro Cons.IH) simp_all
    also have "\<dots> =
       (map (\<lambda>i. if i \<in> set (j # js) then unit_result task zero (data ! i) else results ! i)
          [0..<length data],
        map (\<lambda>i. if i \<in> set (j # js) then unit_error task (data ! i) else errs ! i)
          [0..<length data])"
      using False by auto
    finally show ?thesis .
  qed
qed

lemma map_completed:
  assumes "set completion = {..<length data}"
  shows "map (\<lambda>i. if i \<in> set completion then f (data ! i) else g i) [0..<length data]
           = map f data"
  using assms by (intro nth_equalityI) auto

lemma workerPoolDo_started:
  assumes "set completion = {..<length data}"
  shows "workerPoolDo None completion task zero data =
     (map (unit_result task zero) data, map (unit_error task) data, None)"
  by (simp add: workerPoolDo_def fold_run_unit map_completed [OF assms])

text \<open>
  Claim C5. For a batch of any size \<open>N \<ge> 0\<close>, any transform and any order in which the
  units complete, the executor returns result and error sequences of length \<open>N\<close>; when
  the substrate started, slot \<open>i\<close> of the two sequences holds the outcome of unit \<open>i\<close>
  (the error and the default value when the unit failed, no error and the value when it
  succeeded); and what the executor returns is what it returns when the units complete
  in the order of submission.
\<close>

theorem workerPoolDo_index_stable:
  assumes "distinct completion" and "set completion = {..<length data}"
  shows "(case workerPoolDo substrate completion task zero data of
     (results, errs, batchErr) \<Rightarrow>
        length results = length data \<and> length errs = length data
      \<and> (substrate = None \<longrightarrow>
           (\<forall>i < length data.
              (case task (data ! i) of
                 Inl e \<Rightarrow> errs ! i = Some e \<and> results ! i = zero
               | Inr v \<Rightarrow> errs ! i = None \<and> results ! i = v))))
   \<and> workerPoolDo substrate completion task zero data
       = workerPoolDo substrate [0..<length data] task zero data"
proof (cases substrate)
  case None
  have s: "set [0..<length data] = {..<length data}" by auto
  show ?thesis
    unfolding None workerPoolDo_started [OF assms(2)] workerPoolDo_started [OF s]
    by (simp add: unit_result_def unit_error_def split: sum.splits)
next
  case (Some e)
  then show ?thesis by (simp add: workerPoolDo_def)
qed

text \<open>
  The theorem on three units completing in the order 2, 0, 1, of which unit 1 fails: the
  slots are in the order of submission.
\<close>

theorem workerPoolDo_index_stable_witness:
  "workerPoolDo None [2, 0, 1]
     (\<lambda>u. if u = ''bb'' then Inl (OtherError ''timeout'') else Inr (length u)) 0
     [''a'', ''bb'', ''ccc'']
   = ([1, 0, 3], [None, Some (OtherError ''timeout''), None], None)"
  using workerPoolDo_index_stable
    [where substrate = None and completion = "[2, 0, 1]" and zero = "0 :: nat"
       and task = "\<lambda>u. if u = ''bb'' then Inl (OtherError ''timeout'') else Inr (length u)"
       and data = "[''a'', ''bb'', ''ccc'']"]
  by (simp add: workerPoolDo_def run_unit_def eval_nat_numeral lessThan_Suc)

text \<open>
  Claim C6, as amended. For a batch with zero units the executor returns empty result and
  error sequences and no error. \<open>FetchStocksDataFromYahoo\<close> on the empty request list
  returns no results and a \<open>NoContent\<close> error all the same: \<open>ErrNoContent\<close> itself when
  the executor reported no batch error, and the batch error wrapped in \<open>ErrNoContent\<close>
  otherwise. A \<open>NoContent\<close> classification is thus also produced for \<open>N = 0\<close>.
\<close>

theorem empty_batch_no_content:
  "workerPoolDo None [] task zero [] = ([], [], None)
   \<and> (exec [] = ([], [], berr) \<longrightarrow>
        FetchStocksDataFromYahoo ops exec []
          = Inr ([], Some (case berr of None \<Rightarrow> ErrNoContent
                                       | Some b \<Rightarrow> WrapCause ErrNoContent b)))"
  by (simp add: workerPoolDo_def FetchStocksDataFromYahoo_def split: option.splits)

text \<open>The theorem with the executor above on the empty request list.\<close>

theorem empty_batch_no_content_witness:
  "workerPoolDo None [] (\<lambda>u. Inl (OtherError u)) no_data [] = ([], [], None)
   \<and> FetchStocksDataFromYahoo int_ops (workerPoolDo None [] (\<lambda>u. Inl (OtherError u)) no_data) []
     = Inr ([], Some ErrNoContent)"
  using empty_batch_no_content
    [where task = "\<lambda>u. Inl (OtherError u)" and zero = no_data and ops = int_ops and berr = None
       and exec = "workerPoolDo None [] (\<lambda>u. Inl (OtherError u)) no_data"]
  by (simp add: workerPoolDo_def)

text \<open>
  The claim as first stated (a \<open>NoContent\<close> classification only for \<open>N > 0\<close>) fails on
  the empty request list, for which the executor returns empty sequences and no error:
  the function returns \<open>ErrNoContent\<close>.
\<close>

theorem empty_batch_no_content_counterexample:
  "FetchStocksDataFromYahoo int_ops (\<lambda>requests. ([], [], None)) [] = Inr ([], Some ErrNoContent)"
  by (simp add: FetchStocksDataFromYahoo_def)

text \<open>
  Claim C7. When the executor reports a batch error, \<open>FetchStocksDataFromYahoo\<close> returns
  no results and one error, the batch error wrapped in \<open>ErrNoContent\<close>, whatever the
  per-unit results and errors are. Conversely, when the substrate started, the executor
  reports no batch error, whatever the outcomes of the units are.
\<close>

theorem batch_error_terminal:
  "(exec (map (\<lambda>r. chart_url (req_Symbol r)) stockRequests) = (responses, errs, Some b) \<longrightarrow>
      FetchStocksDataFromYahoo ops exec stockRequests
        = Inr ([], Some (WrapCause ErrNoContent b)))
   \<and> snd (snd (workerPoolDo None completion task zero data)) = None"
  by (simp add: FetchStocksDataFromYahoo_def workerPoolDo_def split: prod.splits)

text \<open>
  The theorem on a batch for which the executor reports the batch error \<open>pool\<close>, and on
  an executor run in which both units fail and no batch error results.
\<close>

theorem batch_error_terminal_witness:
  "FetchStocksDataFromYahoo int_ops
     (\<lambda>requests. ([quoted ''A'' 10 []], [None], Some (OtherError ''pool''))) [request ''A'']
   = Inr ([], Some (WrapCause ErrNoContent (OtherError ''pool'')))
   \<and> workerPoolDo None [1, 0] (\<lambda>u. Inl (OtherError u)) no_data [''a'', ''b'']
     = ([no_data, no_data], [Some (OtherError ''a''), Some (OtherError ''b'')], None)"
  using batch_error_terminal
    [where ops = int_ops and b = "OtherError ''pool''"
       and exec = "\<lambda>requests. ([quoted ''A'' 10 []], [None], Some (OtherError ''pool''))"
       and stockRequests = "[request ''A'']" and responses = "[quoted ''A'' 10 []]"
       and errs = "[None]" and completion = "[1, 0]" and task = "\<lambda>u. Inl (OtherError u)"
       and zero = no_data and data = "[''a'', ''b'']"]
  by (simp add: workerPoolDo_def run_unit_def)

end
